theory Spec2Isabelle
  imports Main
begin

section \<open>The collaborators of the controllers\<close>

text \<open>
  The two controllers, \<^verbatim>\<open>VehicleController\<close> (vehicle.controller.ts) and
  \<^verbatim>\<open>SectionController\<close> (section.controller.ts), talk to three collaborators: the Redis
  client, the service of their module, and the JSON codec of the language. Every handler is
  a function from the world before the request to its outcome (a value or the exception
  that reaches the caller) and the world after it.
\<close>

subsection \<open>Service calls\<close>

text \<open>
  The methods of \<^verbatim>\<open>VehicleService\<close> and \<^verbatim>\<open>SectionService\<close> that the controllers call,
  with their arguments. \<open>'u\<close> is the authenticated caller (\<^verbatim>\<open>UserInterface\<close>), \<open>'b\<close> a
  request body (a DTO). An optional query parameter or body field is a \<open>string option\<close>.
\<close>

datatype ('u, 'b) service_call =
    VehicleService_getAll 'u "string option" int int
  | VehicleService_getById 'u int
  | VehicleService_create 'b
  | VehicleService_update int "string option"
  | VehicleService_delete int
  | SectionService_getAll 'u
  | SectionService_getById 'u int
  | SectionService_getReservedSlots 'u int
  | SectionService_create 'b
  | SectionService_update 'u int 'b
  | SectionService_delete int
  | SectionService_report 'u int "string option" "string option"

subsection \<open>Events, exceptions and the world\<close>

text \<open>
  Every call a handler makes to a collaborator is recorded, in order: the commands sent to
  Redis (whether or not they succeed) and the service methods invoked.
\<close>

datatype ('u, 'b) event =
    RedisGet string
  | RedisSet string string nat
  | ServiceCall "('u, 'b) service_call"

text \<open>
  What a rejected promise carries to the caller: a Redis command that failed (connection or
  transport), \<^verbatim>\<open>JSON.parse\<close> rejecting its text, or whatever the service threw.
\<close>

datatype 'e exn = RedisError | SyntaxError | ServiceError 'e

text \<open>
  The world: the Redis keyspace (each key with its value and the instant it expires), the
  outcomes of the Redis commands still to come (\<open>True\<close>: the next command fails; an empty
  list: no more failures), the clock in seconds, the record store behind the services, and
  the events so far.
\<close>

record ('u, 'b, 'db) world =
  redis :: "string \<rightharpoonup> string \<times> nat"
  redis_faults :: "bool list"
  now :: nat
  db :: 'db
  trace :: "('u, 'b) event list"

definition redis_fails :: "('u, 'b, 'db) world \<Rightarrow> bool" where
  "redis_fails w = (case redis_faults w of [] \<Rightarrow> False | f # _ \<Rightarrow> f)"

text \<open>What \<^verbatim>\<open>GET key\<close> answers at the world's clock: an expired key is absent.\<close>

definition redis_lookup :: "('u, 'b, 'db) world \<Rightarrow> string \<Rightarrow> string option" where
  "redis_lookup w k =
     (case redis w k of
        None \<Rightarrow> None
      | Some (v, expires) \<Rightarrow> if now w < expires then Some v else None)"

text \<open>A command goes out to Redis: it is recorded and takes the next outcome.\<close>

definition sent :: "('u, 'b) event \<Rightarrow> ('u, 'b, 'db) world \<Rightarrow> ('u, 'b, 'db) world" where
  "sent ev w = w\<lparr>redis_faults := tl (redis_faults w), trace := trace w @ [ev]\<rparr>"

text \<open>\<^verbatim>\<open>await this.redis.get(key)\<close>: the value, \<^verbatim>\<open>null\<close> (\<open>None\<close>), or a rejection.\<close>

definition redis_get ::
  "string \<Rightarrow> ('u, 'b, 'db) world \<Rightarrow> ('e exn + string option) \<times> ('u, 'b, 'db) world" where
  "redis_get k w =
     (if redis_fails w then (Inl RedisError, sent (RedisGet k) w)
      else (Inr (redis_lookup w k), sent (RedisGet k) w))"

text \<open>\<^verbatim>\<open>await this.redis.set(key, value, "EX", seconds)\<close>.\<close>

definition redis_set ::
  "string \<Rightarrow> string \<Rightarrow> nat \<Rightarrow> ('u, 'b, 'db) world \<Rightarrow> ('e exn + unit) \<times> ('u, 'b, 'db) world" where
  "redis_set k v seconds w =
     (if redis_fails w then (Inl RedisError, sent (RedisSet k v seconds) w)
      else (Inr (), (sent (RedisSet k v seconds) w)
                      \<lparr>redis := (redis w)(k \<mapsto> (v, now w + seconds))\<rparr>))"

text \<open>Time passing between two requests.\<close>

definition advance :: "nat \<Rightarrow> ('u, 'b, 'db) world \<Rightarrow> ('u, 'b, 'db) world" where
  "advance d w = w\<lparr>now := now w + d\<rparr>"

text \<open>
  Modelled from the spec: the service classes (vehicle.service.ts, section.service.ts) are
  not among the sources. A service is a parameter \<open>svc\<close>: a method call runs on the record
  store and returns a value or throws. It has no access to the cache (spec 4.4: the service
  delegates storage operations to the Record Store; spec 9: mutation endpoints do not
  invalidate or refresh cached entries).
\<close>

type_synonym ('u, 'b, 'db, 'e, 'v) service =
  "('u, 'b) service_call \<Rightarrow> 'db \<Rightarrow> ('e + 'v) \<times> 'db"

text \<open>A service method ran: it is recorded and leaves the record store as \<open>d'\<close>.\<close>

definition called :: "('u, 'b) service_call \<Rightarrow> 'db \<Rightarrow> ('u, 'b, 'db) world \<Rightarrow> ('u, 'b, 'db) world" where
  "called c d' w = w\<lparr>db := d', trace := trace w @ [ServiceCall c]\<rparr>"

text \<open>\<^verbatim>\<open>await this.xService.method(args)\<close>.\<close>

definition invoke ::
  "('u, 'b, 'db, 'e, 'v) service \<Rightarrow> ('u, 'b) service_call \<Rightarrow> ('u, 'b, 'db) world
     \<Rightarrow> ('e exn + 'v) \<times> ('u, 'b, 'db) world" where
  "invoke svc c w =
     (case svc c (db w) of
        (r, d') \<Rightarrow>
          ((case r of Inl e \<Rightarrow> Inl (ServiceError e) | Inr v \<Rightarrow> Inr v),
           called c d' w))"

text \<open>
  \<^verbatim>\<open>JSON.parse\<close> and \<^verbatim>\<open>JSON.stringify\<close> on the values \<open>'v\<close> the services return:
  \<open>parse\<close> gives \<open>None\<close> where \<^verbatim>\<open>JSON.parse\<close> throws a SyntaxError;
  \<open>stringify\<close> is total, the values being the plain data the services return.
\<close>

record 'v json =
  parse :: "string \<Rightarrow> 'v option"
  stringify :: "'v \<Rightarrow> string"

text \<open>JavaScript's truthiness of a \<^verbatim>\<open>string | undefined | null\<close>.\<close>

definition truthy :: "string option \<Rightarrow> bool" where
  "truthy s = (case s of None \<Rightarrow> False | Some v \<Rightarrow> v \<noteq> [])"

subsection \<open>Numbers in template literals\<close>

text \<open>
  \<^verbatim>\<open>ParseIntPipe\<close> hands the handlers integers; a template literal renders an integer in
  decimal, with a minus sign when negative. (Beyond \<open>10^21\<close> JavaScript switches to
  exponent notation and beyond \<open>2^53\<close> the pipe's result is rounded: the model is
  about the integers below.)
\<close>

definition digit_char :: "nat \<Rightarrow> char" where
  "digit_char d = ''0123456789'' ! d"

function digits :: "nat \<Rightarrow> string" where
  "digits n = (if n < 10 then [digit_char n] else digits (n div 10) @ [digit_char (n mod 10)])"
  by pat_completeness auto
termination
  by (relation "measure (\<lambda>n. n)") auto

definition Number_toString :: "int \<Rightarrow> string" where
  "Number_toString n = (if n < 0 then CHR ''-'' # digits (nat (- n)) else digits (nat n))"

section \<open>VehicleController\<close>

definition VehicleController_getAll ::
  "'v json \<Rightarrow> ('u, 'b, 'db, 'e, 'v) service \<Rightarrow> string option \<Rightarrow> 'u \<Rightarrow> string option
     \<Rightarrow> int \<Rightarrow> int \<Rightarrow> ('u, 'b, 'db) world \<Rightarrow> ('e exn + 'v) \<times> ('u, 'b, 'db) world" where
  "VehicleController_getAll JSON svc cacheOption user plate page limit w =
     (let key = ''vehicles:'' @ Number_toString page @ '':'' @ Number_toString limit;
          fresh = (\<lambda>w.
            case invoke svc (VehicleService_getAll user plate page limit) w of
              (Inl e, w1) \<Rightarrow> (Inl e, w1)
            | (Inr vehicles, w1) \<Rightarrow>
                (case redis_set key (stringify JSON vehicles) (60 * 10) w1 of
                   (Inl e, w2) \<Rightarrow> (Inl e, w2)
                 | (Inr _, w2) \<Rightarrow> (Inr vehicles, w2)))
      in if truthy cacheOption \<and> cacheOption \<noteq> Some ''no-cache'' then
           (case redis_get key w of
              (Inl e, w1) \<Rightarrow> (Inl e, w1)
            | (Inr None, w1) \<Rightarrow> fresh w1
            | (Inr (Some cachedVehicles), w1) \<Rightarrow>
                if cachedVehicles \<noteq> [] then
                  (case parse JSON cachedVehicles of
                     None \<Rightarrow> (Inl SyntaxError, w1)
                   | Some v \<Rightarrow> (Inr v, w1))
                else fresh w1)
         else fresh w)"

definition VehicleController_getById ::
  "'v json \<Rightarrow> ('u, 'b, 'db, 'e, 'v) service \<Rightarrow> string option \<Rightarrow> 'u
     \<Rightarrow> int \<Rightarrow> ('u, 'b, 'db) world \<Rightarrow> ('e exn + 'v) \<times> ('u, 'b, 'db) world" where
  "VehicleController_getById JSON svc cacheOption user id' w =
     (let key = ''vehicles:'' @ Number_toString id';
          fresh = (\<lambda>w.
            case invoke svc (VehicleService_getById user id') w of
              (Inl e, w1) \<Rightarrow> (Inl e, w1)
            | (Inr vehicle, w1) \<Rightarrow>
                (case redis_set key (stringify JSON vehicle) (60 * 10) w1 of
                   (Inl e, w2) \<Rightarrow> (Inl e, w2)
                 | (Inr _, w2) \<Rightarrow> (Inr vehicle, w2)))
      in if truthy cacheOption \<and> cacheOption \<noteq> Some ''no-cache'' then
           (case redis_get key w of
              (Inl e, w1) \<Rightarrow> (Inl e, w1)
            | (Inr None, w1) \<Rightarrow> fresh w1
            | (Inr (Some cachedVehicle), w1) \<Rightarrow>
                if cachedVehicle \<noteq> [] then
                  (case parse JSON cachedVehicle of
                     None \<Rightarrow> (Inl SyntaxError, w1)
                   | Some v \<Rightarrow> (Inr v, w1))
                else fresh w1)
         else fresh w)"

definition VehicleController_create ::
  "('u, 'b, 'db, 'e, 'v) service \<Rightarrow> 'b \<Rightarrow> ('u, 'b, 'db) world
     \<Rightarrow> ('e exn + 'v) \<times> ('u, 'b, 'db) world" where
  "VehicleController_create svc body w = invoke svc (VehicleService_create body) w"

definition VehicleController_update ::
  "('u, 'b, 'db, 'e, 'v) service \<Rightarrow> int \<Rightarrow> string option \<Rightarrow> ('u, 'b, 'db) world
     \<Rightarrow> ('e exn + 'v) \<times> ('u, 'b, 'db) world" where
  "VehicleController_update svc id' plate w = invoke svc (VehicleService_update id' plate) w"

definition VehicleController_delete ::
  "('u, 'b, 'db, 'e, 'v) service \<Rightarrow> int \<Rightarrow> ('u, 'b, 'db) world
     \<Rightarrow> ('e exn + 'v) \<times> ('u, 'b, 'db) world" where
  "VehicleController_delete svc id' w = invoke svc (VehicleService_delete id') w"

section \<open>SectionController\<close>

definition SectionController_getAll ::
  "'v json \<Rightarrow> ('u, 'b, 'db, 'e, 'v) service \<Rightarrow> string option \<Rightarrow> 'u
     \<Rightarrow> ('u, 'b, 'db) world \<Rightarrow> ('e exn + 'v) \<times> ('u, 'b, 'db) world" where
  "SectionController_getAll JSON svc cacheOption user w =
     (let key = ''sections'';
          fresh = (\<lambda>w.
            case invoke svc (SectionService_getAll user) w of
              (Inl e, w1) \<Rightarrow> (Inl e, w1)
            | (Inr sections, w1) \<Rightarrow>
                (case redis_set key (stringify JSON sections) (60 * 10) w1 of
                   (Inl e, w2) \<Rightarrow> (Inl e, w2)
                 | (Inr _, w2) \<Rightarrow> (Inr sections, w2)))
      in if truthy cacheOption \<and> cacheOption \<noteq> Some ''no-cache'' then
           (case redis_get key w of
              (Inl e, w1) \<Rightarrow> (Inl e, w1)
            | (Inr None, w1) \<Rightarrow> fresh w1
            | (Inr (Some cachedSections), w1) \<Rightarrow>
                if cachedSections \<noteq> [] then
                  (case parse JSON cachedSections of
                     None \<Rightarrow> (Inl SyntaxError, w1)
                   | Some v \<Rightarrow> (Inr v, w1))
                else fresh w1)
         else fresh w)"

definition SectionController_getById ::
  "'v json \<Rightarrow> ('u, 'b, 'db, 'e, 'v) service \<Rightarrow> string option \<Rightarrow> 'u
     \<Rightarrow> int \<Rightarrow> ('u, 'b, 'db) world \<Rightarrow> ('e exn + 'v) \<times> ('u, 'b, 'db) world" where
  "SectionController_getById JSON svc cacheOption user id' w =
     (let key = ''sections:'' @ Number_toString id';
          fresh = (\<lambda>w.
            case invoke svc (SectionService_getById user id') w of
              (Inl e, w1) \<Rightarrow> (Inl e, w1)
            | (Inr section, w1) \<Rightarrow>
                (case redis_set key (stringify JSON section) (60 * 10) w1 of
                   (Inl e, w2) \<Rightarrow> (Inl e, w2)
                 | (Inr _, w2) \<Rightarrow> (Inr section, w2)))
      in if truthy cacheOption \<and> cacheOption \<noteq> Some ''no-cache'' then
           (case redis_get key w of
              (Inl e, w1) \<Rightarrow> (Inl e, w1)
            | (Inr None, w1) \<Rightarrow> fresh w1
            | (Inr (Some cachedSection), w1) \<Rightarrow>
                if cachedSection \<noteq> [] then
                  (case parse JSON cachedSection of
                     None \<Rightarrow> (Inl SyntaxError, w1)
                   | Some v \<Rightarrow> (Inr v, w1))
                else fresh w1)
         else fresh w)"

definition SectionController_getReservedSlots ::
  "('u, 'b, 'db, 'e, 'v) service \<Rightarrow> 'u \<Rightarrow> int \<Rightarrow> ('u, 'b, 'db) world
     \<Rightarrow> ('e exn + 'v) \<times> ('u, 'b, 'db) world" where
  "SectionController_getReservedSlots svc user id' w =
     invoke svc (SectionService_getReservedSlots user id') w"

definition SectionController_create ::
  "('u, 'b, 'db, 'e, 'v) service \<Rightarrow> 'b \<Rightarrow> ('u, 'b, 'db) world
     \<Rightarrow> ('e exn + 'v) \<times> ('u, 'b, 'db) world" where
  "SectionController_create svc body w = invoke svc (SectionService_create body) w"

definition SectionController_update ::
  "('u, 'b, 'db, 'e, 'v) service \<Rightarrow> 'u \<Rightarrow> int \<Rightarrow> 'b \<Rightarrow> ('u, 'b, 'db) world
     \<Rightarrow> ('e exn + 'v) \<times> ('u, 'b, 'db) world" where
  "SectionController_update svc user id' body w =
     invoke svc (SectionService_update user id' body) w"

definition SectionController_delete ::
  "('u, 'b, 'db, 'e, 'v) service \<Rightarrow> int \<Rightarrow> ('u, 'b, 'db) world
     \<Rightarrow> ('e exn + 'v) \<times> ('u, 'b, 'db) world" where
  "SectionController_delete svc id' w = invoke svc (SectionService_delete id') w"

definition SectionController_report ::
  "('u, 'b, 'db, 'e, 'v) service \<Rightarrow> 'u \<Rightarrow> int \<Rightarrow> string option \<Rightarrow> string option
     \<Rightarrow> ('u, 'b, 'db) world \<Rightarrow> ('e exn + 'v) \<times> ('u, 'b, 'db) world" where
  "SectionController_report svc user id' from to w =
     invoke svc (SectionService_report user id' from to) w"

section \<open>Requests and routing\<close>

text \<open>
  The four cached GET routes, with the arguments the decorators extract from the request:
  \<^verbatim>\<open>GET /vehicles\<close>, \<^verbatim>\<open>GET /vehicles/:id\<close>, \<^verbatim>\<open>GET /sections\<close>, \<^verbatim>\<open>GET /sections/:id\<close>.
\<close>

datatype 'u read_request =
    GET_vehicles 'u "string option" int int
  | GET_vehicles_id 'u int
  | GET_sections 'u
  | GET_sections_id 'u int

fun handle_read ::
  "'v json \<Rightarrow> ('u, 'b, 'db, 'e, 'v) service \<Rightarrow> string option \<Rightarrow> 'u read_request
     \<Rightarrow> ('u, 'b, 'db) world \<Rightarrow> ('e exn + 'v) \<times> ('u, 'b, 'db) world" where
  "handle_read JSON svc cacheOption (GET_vehicles user plate page limit) w =
     VehicleController_getAll JSON svc cacheOption user plate page limit w"
| "handle_read JSON svc cacheOption (GET_vehicles_id user id') w =
     VehicleController_getById JSON svc cacheOption user id' w"
| "handle_read JSON svc cacheOption (GET_sections user) w =
     SectionController_getAll JSON svc cacheOption user w"
| "handle_read JSON svc cacheOption (GET_sections_id user id') w =
     SectionController_getById JSON svc cacheOption user id' w"

text \<open>The key each handler computes in its first line, and the service method it calls.\<close>

fun read_key :: "'u read_request \<Rightarrow> string" where
  "read_key (GET_vehicles user plate page limit) =
     ''vehicles:'' @ Number_toString page @ '':'' @ Number_toString limit"
| "read_key (GET_vehicles_id user id') = ''vehicles:'' @ Number_toString id'"
| "read_key (GET_sections user) = ''sections''"
| "read_key (GET_sections_id user id') = ''sections:'' @ Number_toString id'"

fun read_call :: "'u read_request \<Rightarrow> ('u, 'b) service_call" where
  "read_call (GET_vehicles user plate page limit) = VehicleService_getAll user plate page limit"
| "read_call (GET_vehicles_id user id') = VehicleService_getById user id'"
| "read_call (GET_sections user) = SectionService_getAll user"
| "read_call (GET_sections_id user id') = SectionService_getById user id'"

text \<open>
  The mutation routes: \<^verbatim>\<open>PATCH /vehicles/:id\<close>, \<^verbatim>\<open>DELETE /vehicles/:id\<close>,
  \<^verbatim>\<open>PATCH /sections/:id\<close>, \<^verbatim>\<open>DELETE /sections/:id\<close>.
\<close>

datatype ('u, 'b) mutation_request =
    PATCH_vehicles_id int "string option"
  | DELETE_vehicles_id int
  | PATCH_sections_id 'u int 'b
  | DELETE_sections_id int

fun handle_mutation ::
  "('u, 'b, 'db, 'e, 'v) service \<Rightarrow> ('u, 'b) mutation_request
     \<Rightarrow> ('u, 'b, 'db) world \<Rightarrow> ('e exn + 'v) \<times> ('u, 'b, 'db) world" where
  "handle_mutation svc (PATCH_vehicles_id id' plate) w = VehicleController_update svc id' plate w"
| "handle_mutation svc (DELETE_vehicles_id id') w = VehicleController_delete svc id' w"
| "handle_mutation svc (PATCH_sections_id user id' body) w =
     SectionController_update svc user id' body w"
| "handle_mutation svc (DELETE_sections_id id') w = SectionController_delete svc id' w"

text \<open>The service method a mutation route calls.\<close>

fun mutation_call :: "('u, 'b) mutation_request \<Rightarrow> ('u, 'b) service_call" where
  "mutation_call (PATCH_vehicles_id id' plate) = VehicleService_update id' plate"
| "mutation_call (DELETE_vehicles_id id') = VehicleService_delete id'"
| "mutation_call (PATCH_sections_id user id' body) = SectionService_update user id' body"
| "mutation_call (DELETE_sections_id id') = SectionService_delete id'"

subsection \<open>The shape the four cached handlers share\<close>

text \<open>The last three lines of each handler: call the service, store, return.\<close>

definition load_and_store ::
  "'v json \<Rightarrow> ('u, 'b, 'db, 'e, 'v) service \<Rightarrow> string \<Rightarrow> ('u, 'b) service_call
     \<Rightarrow> ('u, 'b, 'db) world \<Rightarrow> ('e exn + 'v) \<times> ('u, 'b, 'db) world" where
  "load_and_store JSON svc key c w =
     (case invoke svc c w of
        (Inl e, w1) \<Rightarrow> (Inl e, w1)
      | (Inr v, w1) \<Rightarrow>
          (case redis_set key (stringify JSON v) (60 * 10) w1 of
             (Inl e, w2) \<Rightarrow> (Inl e, w2)
           | (Inr _, w2) \<Rightarrow> (Inr v, w2)))"

text \<open>The test \<^verbatim>\<open>cacheOption && cacheOption !== "no-cache"\<close>.\<close>

definition reads_cache :: "string option \<Rightarrow> bool" where
  "reads_cache cacheOption = (truthy cacheOption \<and> cacheOption \<noteq> Some ''no-cache'')"

text \<open>\<^verbatim>\<open>return JSON.parse(cached)\<close>.\<close>

definition parsed :: "'v json \<Rightarrow> string \<Rightarrow> 'e exn + 'v" where
  "parsed JSON s = (case parse JSON s of None \<Rightarrow> Inl SyntaxError | Some v \<Rightarrow> Inr v)"

definition cache_aside ::
  "'v json \<Rightarrow> ('u, 'b, 'db, 'e, 'v) service \<Rightarrow> string \<Rightarrow> string option
     \<Rightarrow> ('u, 'b) service_call \<Rightarrow> ('u, 'b, 'db) world \<Rightarrow> ('e exn + 'v) \<times> ('u, 'b, 'db) world" where
  "cache_aside JSON svc key cacheOption c w =
     (if reads_cache cacheOption then
        (case redis_get key w of
           (Inl e, w1) \<Rightarrow> (Inl e, w1)
         | (Inr None, w1) \<Rightarrow> load_and_store JSON svc key c w1
         | (Inr (Some cached), w1) \<Rightarrow>
             if cached \<noteq> [] then (parsed JSON cached, w1)
             else load_and_store JSON svc key c w1)
      else load_and_store JSON svc key c w)"

subsection \<open>Reading the trace\<close>

text \<open>The events a request added, and how many of them are service calls.\<close>

definition events_since :: "('u, 'b, 'db) world \<Rightarrow> ('u, 'b, 'db) world \<Rightarrow> ('u, 'b) event list" where
  "events_since w w' = drop (length (trace w)) (trace w')"

fun is_ServiceCall :: "('u, 'b) event \<Rightarrow> bool" where
  "is_ServiceCall (ServiceCall c) = True"
| "is_ServiceCall (RedisGet k) = False"
| "is_ServiceCall (RedisSet k v s) = False"

fun is_RedisGet :: "('u, 'b) event \<Rightarrow> bool" where
  "is_RedisGet (RedisGet k) = True"
| "is_RedisGet (ServiceCall c) = False"
| "is_RedisGet (RedisSet k v s) = False"

fun is_RedisSet :: "('u, 'b) event \<Rightarrow> bool" where
  "is_RedisSet (RedisSet k v s) = True"
| "is_RedisSet (ServiceCall c) = False"
| "is_RedisSet (RedisGet k) = False"

definition service_calls :: "('u, 'b) event list \<Rightarrow> nat" where
  "service_calls evs = length (filter is_ServiceCall evs)"

section \<open>Role annotations\<close>

text \<open>The routes of the two controllers, and the \<^verbatim>\<open>@Roles(...)\<close> annotation each one carries.\<close>

datatype route =
    Vehicle_getAll | Vehicle_getById | Vehicle_create | Vehicle_update | Vehicle_delete
  | Section_getAll | Section_getById | Section_getReservedSlots | Section_create
  | Section_update | Section_delete | Section_report

fun Roles :: "route \<Rightarrow> string list" where
  "Roles Vehicle_getAll = [''ADMIN'', ''SECURITY'']"
| "Roles Vehicle_getById = [''ADMIN'', ''SECURITY'']"
| "Roles Vehicle_create = [''ADMIN'', ''SECURITY'']"
| "Roles Vehicle_update = [''ADMIN'']"
| "Roles Vehicle_delete = [''ADMIN'']"
| "Roles Section_getAll = [''ADMIN'', ''SECURITY'']"
| "Roles Section_getById = [''ADMIN'', ''SECURITY'']"
| "Roles Section_getReservedSlots = [''ADMIN'', ''SECURITY'']"
| "Roles Section_create = [''ADMIN'']"
| "Roles Section_update = [''ADMIN'']"
| "Roles Section_delete = [''ADMIN'']"
| "Roles Section_report = [''ADMIN'', ''SECURITY'']"

datatype decision = Allow | Deny

text \<open>
  Modelled from the spec: \<^verbatim>\<open>RolesGuard\<close> (src/guards/role.guard) and the \<^verbatim>\<open>Roles\<close>
  decorator (src/decorators/role.decorator) are not among the sources. The Role Policy maps
  a caller's role and an action on a resource to a decision (spec 4.1), the annotations of
  the routes are that policy (spec 9), and POST, PATCH and DELETE require elevated roles
  (spec 6): a caller passes the guard of a route when their role is among the route's
  annotation, and is denied otherwise. Scoping an allowed call is the service's.
\<close>

definition RolesGuard :: "string \<Rightarrow> route \<Rightarrow> decision" where
  "RolesGuard role r = (if role \<in> set (Roles r) then Allow else Deny)"

section \<open>A sample deployment\<close>

text \<open>
  Concrete collaborators for the closed instances below. Values are lists of plates; the
  codec is \<^verbatim>\<open>JSON.stringify\<close> and \<^verbatim>\<open>JSON.parse\<close> on arrays of strings that need no
  escapes and hold no comma (texts of any other shape are rejected).
\<close>

definition json_string :: "string \<Rightarrow> string" where
  "json_string s = CHR 0x22 # s @ [CHR 0x22]"

fun join_commas :: "string list \<Rightarrow> string" where
  "join_commas [] = []"
| "join_commas [x] = x"
| "join_commas (x # y # ys) = x @ '','' @ join_commas (y # ys)"

definition plates_stringify :: "string list \<Rightarrow> string" where
  "plates_stringify ps = ''['' @ join_commas (map json_string ps) @ '']''"

fun split_commas :: "string \<Rightarrow> string \<Rightarrow> string list" where
  "split_commas cur [] = [rev cur]"
| "split_commas cur (c # cs) =
     (if c = CHR '','' then rev cur # split_commas [] cs else split_commas (c # cur) cs)"

definition unquote :: "string \<Rightarrow> string option" where
  "unquote s =
     (case s of
        [] \<Rightarrow> None
      | q # rest \<Rightarrow>
          if q = CHR 0x22 \<and> rest \<noteq> [] \<and> last rest = CHR 0x22
             \<and> list_all (\<lambda>c. c \<noteq> CHR 0x22 \<and> c \<noteq> CHR 0x5C) (butlast rest)
          then Some (butlast rest) else None)"

definition plates_parse :: "string \<Rightarrow> string list option" where
  "plates_parse s =
     (case s of
        [] \<Rightarrow> None
      | b # rest \<Rightarrow>
          if b = CHR ''['' \<and> rest \<noteq> [] \<and> last rest = CHR '']'' then
            (if butlast rest = [] then Some []
             else those (map unquote (split_commas [] (butlast rest))))
          else None)"

definition sample_JSON :: "string list json" where
  "sample_JSON = \<lparr>parse = plates_parse, stringify = plates_stringify\<rparr>"

text \<open>
  A vehicle service over a table of ids and plates; callers are their role names, a failure
  is an HTTP status. The methods the instances do not use answer 501.
\<close>

type_synonym sample_db = "(int \<times> string) list"

fun sample_service :: "(string, string) service_call \<Rightarrow> sample_db \<Rightarrow> (nat + string list) \<times> sample_db" where
  "sample_service (VehicleService_getAll user plate page limit) d =
     (Inr (take (nat limit) (drop (nat ((page - 1) * limit))
        (map snd (filter (\<lambda>(i, p). case plate of None \<Rightarrow> True | Some q \<Rightarrow> q = p) d)))), d)"
| "sample_service (VehicleService_getById user i) d =
     (case map_of d i of None \<Rightarrow> (Inl 404, d) | Some p \<Rightarrow> (Inr [p], d))"
| "sample_service (VehicleService_update i plate) d =
     (case map_of d i of
        None \<Rightarrow> (Inl 404, d)
      | Some old \<Rightarrow>
          (case plate of
             None \<Rightarrow> (Inl 400, d)
           | Some p \<Rightarrow> (Inr [p], map (\<lambda>(j, q). if j = i then (j, p) else (j, q)) d)))"
| "sample_service (VehicleService_delete i) d =
     (case map_of d i of
        None \<Rightarrow> (Inl 404, d)
      | Some p \<Rightarrow> (Inr [p], filter (\<lambda>(j, q). j \<noteq> i) d))"
| "sample_service (VehicleService_create body) d = (Inl 501, d)"
| "sample_service (SectionService_getAll user) d = (Inl 501, d)"
| "sample_service (SectionService_getById user i) d = (Inl 501, d)"
| "sample_service (SectionService_getReservedSlots user i) d = (Inl 501, d)"
| "sample_service (SectionService_create body) d = (Inl 501, d)"
| "sample_service (SectionService_update user i body) d = (Inl 501, d)"
| "sample_service (SectionService_delete i) d = (Inl 501, d)"
| "sample_service (SectionService_report user i from to) d = (Inl 501, d)"

definition sample_world :: "(string, string, sample_db) world" where
  "sample_world =
     \<lparr>redis = Map.empty, redis_faults = [], now = 0,
      db = [(1, ''ABC1234''), (2, ''XYZ9876'')], trace = []\<rparr>"

section \<open>Facts about the collaborators\<close>

declare digits.simps [simp del]

lemma digits_small: "n < 10 \<Longrightarrow> digits n = [digit_char n]"
  by (subst digits.simps) simp

lemma digits_large: "\<not> n < 10 \<Longrightarrow> digits n = digits (n div 10) @ [digit_char (n mod 10)]"
  by (subst digits.simps) simp

lemmas render = Number_toString_def digits_small digits_large digit_char_def

lemma sent_fields [simp]:
  "trace (sent ev w) = trace w @ [ev]"
  "redis (sent ev w) = redis w"
  "db (sent ev w) = db w"
  "now (sent ev w) = now w"
  "redis_faults (sent ev w) = tl (redis_faults w)"
  by (simp_all add: sent_def)

lemma called_fields [simp]:
  "trace (called c d w) = trace w @ [ServiceCall c]"
  "redis (called c d w) = redis w"
  "db (called c d w) = d"
  "now (called c d w) = now w"
  "redis_faults (called c d w) = redis_faults w"
  by (simp_all add: called_def)

lemma advance_fields [simp]:
  "trace (advance n w) = trace w"
  "redis (advance n w) = redis w"
  "db (advance n w) = db w"
  "now (advance n w) = now w + n"
  "redis_faults (advance n w) = redis_faults w"
  by (simp_all add: advance_def)

lemma redis_fails_called [simp]: "redis_fails (called c d w) = redis_fails w"
  by (simp add: redis_fails_def)

lemma redis_fails_advance [simp]: "redis_fails (advance n w) = redis_fails w"
  by (simp add: redis_fails_def)

lemma redis_lookup_sent [simp]: "redis_lookup (sent ev w) k = redis_lookup w k"
  by (simp add: redis_lookup_def split: option.splits)

lemma redis_lookup_called [simp]: "redis_lookup (called c d w) k = redis_lookup w k"
  by (simp add: redis_lookup_def split: option.splits)

lemma events_since_append: "trace w' = trace w @ evs \<Longrightarrow> events_since w w' = evs"
  by (simp add: events_since_def)

subsection \<open>The paths through a cached handler\<close>

lemma handle_read_cache_aside:
  "handle_read JSON svc cacheOption req w =
     cache_aside JSON svc (read_key req) cacheOption (read_call req) w"
  by (cases req)
     (simp_all add: VehicleController_getAll_def VehicleController_getById_def
        SectionController_getAll_def SectionController_getById_def cache_aside_def
        load_and_store_def reads_cache_def parsed_def Let_def
        split: prod.splits sum.splits option.splits)

lemma load_and_store_throws:
  "svc c (db w) = (Inl e, d') \<Longrightarrow>
     load_and_store JSON svc key c w = (Inl (ServiceError e), called c d' w)"
  by (simp add: load_and_store_def invoke_def)

lemma load_and_store_set_fails:
  "svc c (db w) = (Inr v, d') \<Longrightarrow> redis_fails w \<Longrightarrow>
     load_and_store JSON svc key c w =
       (Inl RedisError, sent (RedisSet key (stringify JSON v) 600) (called c d' w))"
  by (simp add: load_and_store_def invoke_def redis_set_def)

lemma load_and_store_stores:
  "svc c (db w) = (Inr v, d') \<Longrightarrow> \<not> redis_fails w \<Longrightarrow>
     load_and_store JSON svc key c w =
       (Inr v, (sent (RedisSet key (stringify JSON v) 600) (called c d' w))
                 \<lparr>redis := (redis w)(key \<mapsto> (stringify JSON v, now w + 600))\<rparr>)"
  by (simp add: load_and_store_def invoke_def redis_set_def)

lemma cache_aside_bypass:
  "\<not> reads_cache cacheOption \<Longrightarrow>
     cache_aside JSON svc key cacheOption c w = load_and_store JSON svc key c w"
  by (simp add: cache_aside_def)

lemma cache_aside_get_fails:
  "reads_cache cacheOption \<Longrightarrow> redis_fails w \<Longrightarrow>
     cache_aside JSON svc key cacheOption c w = (Inl RedisError, sent (RedisGet key) w)"
  by (simp add: cache_aside_def redis_get_def)

lemma cache_aside_hit:
  "reads_cache cacheOption \<Longrightarrow> \<not> redis_fails w \<Longrightarrow> redis_lookup w key = Some s \<Longrightarrow> s \<noteq> [] \<Longrightarrow>
     cache_aside JSON svc key cacheOption c w = (parsed JSON s, sent (RedisGet key) w)"
  by (simp add: cache_aside_def redis_get_def)

lemma cache_aside_miss:
  "reads_cache cacheOption \<Longrightarrow> \<not> redis_fails w \<Longrightarrow>
   redis_lookup w key = None \<or> redis_lookup w key = Some [] \<Longrightarrow>
     cache_aside JSON svc key cacheOption c w = load_and_store JSON svc key c (sent (RedisGet key) w)"
  by (auto simp add: cache_aside_def redis_get_def)

subsection \<open>The events of a request\<close>

lemma load_and_store_cases:
  obtains (throws) e d' where "svc c (db w) = (Inl e, d')"
      and "load_and_store JSON svc key c w = (Inl (ServiceError e), called c d' w)"
    | (set_fails) v d' where "svc c (db w) = (Inr v, d')" and "redis_fails w"
      and "load_and_store JSON svc key c w =
             (Inl RedisError, sent (RedisSet key (stringify JSON v) 600) (called c d' w))"
    | (stores) v d' where "svc c (db w) = (Inr v, d')" and "\<not> redis_fails w"
      and "load_and_store JSON svc key c w =
             (Inr v, (sent (RedisSet key (stringify JSON v) 600) (called c d' w))
                       \<lparr>redis := (redis w)(key \<mapsto> (stringify JSON v, now w + 600))\<rparr>)"
proof (cases "svc c (db w)")
  case (Pair x d')
  show ?thesis
  proof (cases x)
    case (Inl e)
    with Pair throws load_and_store_throws show ?thesis by fast
  next
    case (Inr v)
    show ?thesis
    proof (cases "redis_fails w")
      case True
      with Pair Inr set_fails load_and_store_set_fails show ?thesis by fast
    next
      case False
      with Pair Inr stores load_and_store_stores show ?thesis by fast
    qed
  qed
qed

lemma cache_aside_cases:
  obtains (bypass) "\<not> reads_cache cacheOption"
      and "cache_aside JSON svc key cacheOption c w = load_and_store JSON svc key c w"
    | (get_fails) "reads_cache cacheOption" and "redis_fails w"
      and "cache_aside JSON svc key cacheOption c w = (Inl RedisError, sent (RedisGet key) w)"
    | (hit) s where "reads_cache cacheOption" and "\<not> redis_fails w"
      and "redis_lookup w key = Some s" and "s \<noteq> []"
      and "cache_aside JSON svc key cacheOption c w = (parsed JSON s, sent (RedisGet key) w)"
    | (miss) "reads_cache cacheOption" and "\<not> redis_fails w"
      and "redis_lookup w key = None \<or> redis_lookup w key = Some []"
      and "cache_aside JSON svc key cacheOption c w =
             load_and_store JSON svc key c (sent (RedisGet key) w)"
proof (cases "reads_cache cacheOption")
  case False
  with bypass cache_aside_bypass show ?thesis by fast
next
  case rc: True
  show ?thesis
  proof (cases "redis_fails w")
    case True
    with rc get_fails cache_aside_get_fails show ?thesis by fast
  next
    case up: False
    show ?thesis
    proof (cases "redis_lookup w key")
      case None
      with rc up miss cache_aside_miss show ?thesis by fast
    next
      case (Some s)
      show ?thesis
      proof (cases "s = []")
        case True
        with Some rc up miss cache_aside_miss show ?thesis by fast
      next
        case False
        with Some rc up hit cache_aside_hit show ?thesis by fast
      qed
    qed
  qed
qed

lemma load_and_store_events:
  assumes "load_and_store JSON svc key c w = (r, w')"
    and that: "length (trace w0) \<le> length (trace w)"
  shows "events_since w0 w' =
           drop (length (trace w0)) (trace w) @
           (case fst (svc c (db w)) of
              Inl e \<Rightarrow> [ServiceCall c]
            | Inr v \<Rightarrow> [ServiceCall c, RedisSet key (stringify JSON v) 600])"
proof (cases rule: load_and_store_cases [of svc c w JSON key])
  case (throws e d')
  with assms that show ?thesis by (auto simp: events_since_def)
next
  case (set_fails v d')
  with assms that show ?thesis by (auto simp: events_since_def)
next
  case (stores v d')
  with assms that show ?thesis by (auto simp: events_since_def)
qed

lemma cache_aside_events:
  assumes "cache_aside JSON svc key cacheOption c w = (r, w')"
  shows "events_since w w' =
           (if reads_cache cacheOption then
              (if redis_fails w \<or> (\<exists>s. redis_lookup w key = Some s \<and> s \<noteq> []) then [RedisGet key]
               else RedisGet key #
                 (case fst (svc c (db w)) of
                    Inl e \<Rightarrow> [ServiceCall c]
                  | Inr v \<Rightarrow> [ServiceCall c, RedisSet key (stringify JSON v) 600]))
            else (case fst (svc c (db w)) of
                    Inl e \<Rightarrow> [ServiceCall c]
                  | Inr v \<Rightarrow> [ServiceCall c, RedisSet key (stringify JSON v) 600]))"
proof (cases rule: cache_aside_cases [of cacheOption JSON svc key c w])
  case bypass
  with assms have "load_and_store JSON svc key c w = (r, w')" by simp
  from load_and_store_events [OF this, of w] bypass show ?thesis by simp
next
  case get_fails
  with assms show ?thesis by (auto simp: events_since_def)
next
  case (hit s)
  with assms show ?thesis by (auto simp: events_since_def)
next
  case miss
  with assms have "load_and_store JSON svc key c (sent (RedisGet key) w) = (r, w')" by simp
  from load_and_store_events [OF this, of w] miss show ?thesis by auto
qed

subsection \<open>Requests that skip the cache, and hits before expiry\<close>

lemma unread_cache_events:
  assumes "\<not> reads_cache cacheOption"
    and "handle_read JSON svc cacheOption req w = (r, w')"
  shows "events_since w w' =
           (case fst (svc (read_call req) (db w)) of
              Inl e \<Rightarrow> [ServiceCall (read_call req)]
            | Inr v \<Rightarrow> [ServiceCall (read_call req),
                         RedisSet (read_key req) (stringify JSON v) 600])"
  using cache_aside_events [OF assms(2) [unfolded handle_read_cache_aside]] assms(1) by simp

lemma unread_cache_stores:
  assumes "\<not> reads_cache cacheOption"
    and "handle_read JSON svc cacheOption req w = (r, w')"
    and "svc (read_call req) (db w) = (Inr v, d')"
    and "\<not> redis_fails w"
  shows "r = Inr v"
    and "w' = (sent (RedisSet (read_key req) (stringify JSON v) 600) (called (read_call req) d' w))
                \<lparr>redis := (redis w)(read_key req \<mapsto> (stringify JSON v, now w + 600))\<rparr>"
proof -
  from assms(1,2) have "load_and_store JSON svc (read_key req) (read_call req) w = (r, w')"
    by (simp add: handle_read_cache_aside cache_aside_bypass)
  with load_and_store_stores [where svc = svc and c = "read_call req" and w = w
      and JSON = JSON and key = "read_key req", OF assms(3,4)]
  show "r = Inr v"
    and "w' = (sent (RedisSet (read_key req) (stringify JSON v) 600) (called (read_call req) d' w))
                \<lparr>redis := (redis w)(read_key req \<mapsto> (stringify JSON v, now w + 600))\<rparr>"
    by simp_all
qed

lemma hit_within_ttl:
  assumes "redis w key = Some (s, expires)"
    and "now w + d < expires"
    and "s \<noteq> []"
    and "reads_cache cacheOption"
    and "\<not> redis_fails w"
    and "read_key req = key"
  shows "handle_read JSON svc cacheOption req (advance d w) =
           (parsed JSON s, sent (RedisGet key) (advance d w))"
proof -
  from assms(1,2) have "redis_lookup (advance d w) key = Some s"
    by (simp add: redis_lookup_def)
  with assms(3-6) show ?thesis
    by (simp add: handle_read_cache_aside cache_aside_hit)
qed

section \<open>Repeating a read\<close>

lemma read_invokes_service_at_most_once:
  assumes "handle_read JSON svc cacheOption req w = (r, w')"
  shows "service_calls (events_since w w') \<le> 1"
  using cache_aside_events [OF assms [unfolded handle_read_cache_aside]]
  by (simp add: service_calls_def split: sum.splits)

lemma read_returns_cases [consumes 2, case_names hit miss]:
  assumes "reads_cache cacheOption"
    and "handle_read JSON svc cacheOption req w = (Inr v, w1)"
  obtains (hit) "w1 = sent (RedisGet (read_key req)) w"
    | (miss) d' where
        "w1 = (sent (RedisSet (read_key req) (stringify JSON v) 600)
                 (called (read_call req) d' (sent (RedisGet (read_key req)) w)))
               \<lparr>redis := (redis w)(read_key req \<mapsto> (stringify JSON v, now w + 600))\<rparr>"
proof (cases rule: cache_aside_cases [of cacheOption JSON svc "read_key req" "read_call req" w])
  case bypass
  with assms(1) show ?thesis by simp
next
  case get_fails
  with assms(2) show ?thesis by (simp add: handle_read_cache_aside)
next
  case (hit s)
  with assms(2) have "w1 = sent (RedisGet (read_key req)) w"
    by (simp add: handle_read_cache_aside)
  then show ?thesis by (rule that(1))
next
  case miss
  let ?w0 = "sent (RedisGet (read_key req)) w"
  from miss assms(2)
  have run: "load_and_store JSON svc (read_key req) (read_call req) ?w0 = (Inr v, w1)"
    by (simp add: handle_read_cache_aside)
  show ?thesis
  proof (cases rule: load_and_store_cases [of svc "read_call req" ?w0 JSON "read_key req"])
    case (throws e d')
    with run show ?thesis by simp
  next
    case (set_fails v' d')
    with run show ?thesis by simp
  next
    case (stores v' d')
    with run have "w1 = (sent (RedisSet (read_key req) (stringify JSON v) 600)
                 (called (read_call req) d' ?w0))
               \<lparr>redis := (redis w)(read_key req \<mapsto> (stringify JSON v, now w + 600))\<rparr>"
      by auto
    then show ?thesis by (rule that(2))
  qed
qed

lemma cached_read_gets_first:
  assumes "reads_cache cacheOption"
    and "handle_read JSON svc cacheOption req w = (r, w')"
  shows "hd (events_since w w') = RedisGet (read_key req)"
  using cache_aside_events [OF assms(2) [unfolded handle_read_cache_aside]] assms(1)
  by (simp split: sum.splits)

text \<open>
  What the handlers do for a header that is present, non-empty and different from
  \<^verbatim>\<open>no-cache\<close>: when such a request returns a value whose serialization is not empty and
  the same read is repeated with such a header less than 600 seconds later, the service is
  invoked at most once over the two calls; and when the first call was the one that invoked
  the service, it stored the serialized value under the request's key, and the second call
  (its GET not failing) returns the deserialization of that stored text with the GET as its
  only event.
\<close>

lemma repeated_cached_read_loads_once:
  assumes "reads_cache cacheOption" and "reads_cache cacheOption2"
    and "handle_read JSON svc cacheOption req w = (Inr v, w1)"
    and "d < 600"
    and "stringify JSON v \<noteq> []"
    and "handle_read JSON svc cacheOption2 req (advance d w1) = (r2, w2)"
  shows "hd (events_since w w1) = RedisGet (read_key req)
    \<and> service_calls (events_since w w1) + service_calls (events_since (advance d w1) w2) \<le> 1
    \<and> (service_calls (events_since w w1) = 1 \<longrightarrow>
          redis w1 (read_key req) = Some (stringify JSON v, now w + 600)
          \<and> (\<not> redis_fails w1 \<longrightarrow>
               r2 = parsed JSON (stringify JSON v)
               \<and> events_since (advance d w1) w2 = [RedisGet (read_key req)]
               \<and> redis w2 = redis w1))"
  using assms(1,3)
proof (cases rule: read_returns_cases)
  case hit
  then have ev: "events_since w w1 = [RedisGet (read_key req)]"
    by (simp add: events_since_def)
  with read_invokes_service_at_most_once [OF assms(6)] show ?thesis
    by (simp add: service_calls_def)
next
  case (miss d')
  then have ev: "events_since w w1 =
      [RedisGet (read_key req), ServiceCall (read_call req),
       RedisSet (read_key req) (stringify JSON v) 600]"
    by (simp add: events_since_def)
  have entry: "redis w1 (read_key req) = Some (stringify JSON v, now w + 600)"
    by (simp add: miss)
  have t: "now w1 = now w"
    by (simp add: miss)
  have second: "r2 = parsed JSON (stringify JSON v)
      \<and> events_since (advance d w1) w2 = [RedisGet (read_key req)] \<and> redis w2 = redis w1"
    if up: "\<not> redis_fails w1"
  proof -
    from assms(4) have "now w1 + d < now w + 600"
      by (simp add: t)
    from hit_within_ttl [OF entry this assms(5,2) up refl, of JSON svc] assms(6)
    have "r2 = parsed JSON (stringify JSON v)"
      and "w2 = sent (RedisGet (read_key req)) (advance d w1)"
      by simp_all
    then show ?thesis
      by (simp add: events_since_def)
  qed
  have "service_calls (events_since (advance d w1) w2) = 0"
  proof (cases "redis_fails w1")
    case True
    with assms(2,6) have "w2 = sent (RedisGet (read_key req)) (advance d w1)"
      by (simp add: handle_read_cache_aside cache_aside_get_fails)
    then show ?thesis
      by (simp add: events_since_def service_calls_def)
  next
    case False
    with second show ?thesis
      by (simp add: service_calls_def)
  qed
  with ev entry second show ?thesis
    by (simp add: service_calls_def)
qed

lemma repeated_cached_read_loads_once_sample:
  "fst (handle_read sample_JSON sample_service (Some ''max-age=0'')
        (GET_vehicles ''SECURITY'' None 1 10) sample_world) = Inr [''ABC1234'', ''XYZ9876'']
   \<and> redis (snd (handle_read sample_JSON sample_service (Some ''max-age=0'')
        (GET_vehicles ''SECURITY'' None 1 10) sample_world)) ''vehicles:1:10''
       = Some (plates_stringify [''ABC1234'', ''XYZ9876''], 600)
   \<and> fst (handle_read sample_JSON sample_service (Some ''max-age=0'')
        (GET_vehicles ''SECURITY'' None 1 10)
        (advance 599 (snd (handle_read sample_JSON sample_service (Some ''max-age=0'')
          (GET_vehicles ''SECURITY'' None 1 10) sample_world))))
       = Inr [''ABC1234'', ''XYZ9876'']
   \<and> events_since
        (advance 599 (snd (handle_read sample_JSON sample_service (Some ''max-age=0'')
          (GET_vehicles ''SECURITY'' None 1 10) sample_world)))
        (snd (handle_read sample_JSON sample_service (Some ''max-age=0'')
          (GET_vehicles ''SECURITY'' None 1 10)
          (advance 599 (snd (handle_read sample_JSON sample_service (Some ''max-age=0'')
            (GET_vehicles ''SECURITY'' None 1 10) sample_world)))))
       = [RedisGet ''vehicles:1:10'']"
proof -
  let ?req = "GET_vehicles ''SECURITY'' None 1 10 :: string read_request"
  let ?v = "[''ABC1234'', ''XYZ9876'']"
  let ?run1 = "handle_read sample_JSON sample_service (Some ''max-age=0'') ?req sample_world"
  have run1: "?run1 =
      (Inr ?v,
       (sent (RedisSet ''vehicles:1:10'' (plates_stringify ?v) 600)
          (called (VehicleService_getAll ''SECURITY'' None 1 10) (db sample_world)
             (sent (RedisGet ''vehicles:1:10'') sample_world)))
         \<lparr>redis := (redis sample_world)(''vehicles:1:10'' \<mapsto> (plates_stringify ?v, 600))\<rparr>)"
    by (simp add: VehicleController_getAll_def Let_def render truthy_def redis_get_def
          redis_set_def redis_fails_def redis_lookup_def invoke_def sample_world_def
          sample_JSON_def)
  have h: "reads_cache (Some ''max-age=0'')"
    by (simp add: reads_cache_def truthy_def)
  have first: "?run1 = (Inr ?v, snd ?run1)"
    unfolding run1 by simp
  have s: "stringify sample_JSON ?v \<noteq> []"
    by (simp add: sample_JSON_def plates_stringify_def)
  have calls: "service_calls (events_since sample_world (snd ?run1)) = 1"
    unfolding run1 by (simp add: events_since_def service_calls_def sample_world_def)
  have up: "\<not> redis_fails (snd ?run1)"
    unfolding run1 by (simp add: redis_fails_def sample_world_def sent_def called_def)
  have p: "parsed sample_JSON (stringify sample_JSON ?v) = (Inr ?v :: nat exn + string list)"
    by (simp add: parsed_def sample_JSON_def plates_parse_def plates_stringify_def
          json_string_def unquote_def)
  have t0: "now sample_world = 0"
    by (simp add: sample_world_def)
  note inst = repeated_cached_read_loads_once [where JSON = sample_JSON and svc = sample_service
      and req = ?req and w = sample_world and d = 599, OF h h first _ s surjective_pairing]
  from inst [THEN conjunct2, THEN conjunct2] calls up
  have "redis (snd ?run1) (read_key ?req) = Some (stringify sample_JSON ?v, now sample_world + 600)
      \<and> fst (handle_read sample_JSON sample_service (Some ''max-age=0'') ?req
            (advance 599 (snd ?run1))) = parsed sample_JSON (stringify sample_JSON ?v)
      \<and> events_since (advance 599 (snd ?run1))
            (snd (handle_read sample_JSON sample_service (Some ''max-age=0'') ?req
              (advance 599 (snd ?run1)))) = [RedisGet (read_key ?req)]"
    by simp
  then have "redis (snd ?run1) ''vehicles:1:10'' = Some (plates_stringify ?v, 600)
      \<and> fst (handle_read sample_JSON sample_service (Some ''max-age=0'') ?req
            (advance 599 (snd ?run1))) = Inr ?v
      \<and> events_since (advance 599 (snd ?run1))
            (snd (handle_read sample_JSON sample_service (Some ''max-age=0'') ?req
              (advance 599 (snd ?run1)))) = [RedisGet ''vehicles:1:10'']"
    unfolding p t0 by (simp add: render sample_JSON_def)
  moreover have "fst ?run1 = Inr ?v"
    unfolding run1 by simp
  ultimately show ?thesis
    by blast
qed

text \<open>
  C1. Every cached handler documents the Cache-Control header as optional, with
  \<^verbatim>\<open>no-cache\<close> the value that makes it ignore the cache. A request without the header carries
  no bypass directive, yet the guard \<^verbatim>\<open>cacheOption && cacheOption !== "no-cache"\<close> keeps it
  from the cache: on the sample deployment the vehicle list request sends no GET, invokes the
  service and stores the result; one second later, with that entry alive under the same key,
  the same request again sends no GET and invokes the service again: two service calls over
  the two requests, where a read of the cache would have given one.
\<close>

theorem absent_header_request_reloads:
  "events_since sample_world
      (snd (handle_read sample_JSON sample_service None (GET_vehicles ''SECURITY'' None 1 10)
        sample_world))
     = [ServiceCall (VehicleService_getAll ''SECURITY'' None 1 10),
        RedisSet ''vehicles:1:10'' (plates_stringify [''ABC1234'', ''XYZ9876'']) 600]
   \<and> redis_lookup
        (advance 1
          (snd (handle_read sample_JSON sample_service None (GET_vehicles ''SECURITY'' None 1 10)
            sample_world)))
        ''vehicles:1:10''
     = Some (plates_stringify [''ABC1234'', ''XYZ9876''])
   \<and> events_since
        (advance 1
          (snd (handle_read sample_JSON sample_service None (GET_vehicles ''SECURITY'' None 1 10)
            sample_world)))
        (snd (handle_read sample_JSON sample_service None (GET_vehicles ''SECURITY'' None 1 10)
          (advance 1
            (snd (handle_read sample_JSON sample_service None
              (GET_vehicles ''SECURITY'' None 1 10) sample_world)))))
     = [ServiceCall (VehicleService_getAll ''SECURITY'' None 1 10),
        RedisSet ''vehicles:1:10'' (plates_stringify [''ABC1234'', ''XYZ9876'']) 600]
   \<and> service_calls (events_since sample_world
        (snd (handle_read sample_JSON sample_service None (GET_vehicles ''SECURITY'' None 1 10)
          (advance 1
            (snd (handle_read sample_JSON sample_service None
              (GET_vehicles ''SECURITY'' None 1 10) sample_world)))))) = 2"
proof -
  let ?c = "VehicleService_getAll ''SECURITY'' None 1 10 :: (string, string) service_call"
  let ?s = "plates_stringify [''ABC1234'', ''XYZ9876'']"
  let ?run1 = "handle_read sample_JSON sample_service None (GET_vehicles ''SECURITY'' None 1 10)
                 sample_world"
  let ?w1 = "(sent (RedisSet ''vehicles:1:10'' ?s 600) (called ?c (db sample_world) sample_world))
               \<lparr>redis := (redis sample_world)(''vehicles:1:10'' \<mapsto> (?s, 600))\<rparr>"
  let ?w2 = "(sent (RedisSet ''vehicles:1:10'' ?s 600)
                (called ?c (db sample_world) (advance 1 ?w1)))
               \<lparr>redis := (redis (advance 1 ?w1))(''vehicles:1:10'' \<mapsto> (?s, 601))\<rparr>"
  have run1: "?run1 = (Inr [''ABC1234'', ''XYZ9876''], ?w1)"
    by (simp add: VehicleController_getAll_def Let_def render truthy_def redis_set_def
          redis_fails_def invoke_def sample_world_def sample_JSON_def)
  have run2: "handle_read sample_JSON sample_service None (GET_vehicles ''SECURITY'' None 1 10)
                (advance 1 ?w1) = (Inr [''ABC1234'', ''XYZ9876''], ?w2)"
    by (simp add: VehicleController_getAll_def Let_def render truthy_def redis_set_def
          redis_fails_def invoke_def sample_world_def sample_JSON_def)
  have alive: "redis_lookup (advance 1 ?w1) ''vehicles:1:10'' = Some ?s"
    by (simp add: redis_lookup_def sample_world_def)
  show ?thesis
    unfolding run1 run2 snd_conv
    using alive by (simp add: events_since_def service_calls_def)
qed

section \<open>The key of the vehicle list\<close>

lemma upt_ten: "[0..<10] = [0, 1, 2, 3, 4, 5, 6, 7, 8, 9 :: nat]"
  by (simp add: upt_rec)

lemma below_ten: "d < 10 \<Longrightarrow> d \<in> set [0, 1, 2, 3, 4, 5, 6, 7, 8, 9 :: nat]"
proof -
  assume "d < 10"
  then have "d \<in> set [0..<10]" by simp
  then show ?thesis by (simp only: upt_ten)
qed

lemma digit_char_not:
  "d < 10 \<Longrightarrow> digit_char d \<noteq> CHR '':'' \<and> digit_char d \<noteq> CHR ''-''"
  by (drule below_ten) (auto simp: digit_char_def)

lemma digit_char_code: "d < 10 \<Longrightarrow> (of_char (digit_char d) :: nat) = 48 + d"
  by (drule below_ten) (auto simp: digit_char_def)

lemma digit_char_inj:
  assumes "a < 10" and "b < 10" and "digit_char a = digit_char b"
  shows "a = b"
proof -
  from assms(3) have "(of_char (digit_char a) :: nat) = of_char (digit_char b)"
    by simp
  with assms(1,2) show ?thesis
    by (simp add: digit_char_code)
qed

lemma digits_not_empty: "digits n \<noteq> []"
  by (subst digits.simps) simp

lemma digits_no_separator: "CHR '':'' \<notin> set (digits n) \<and> CHR ''-'' \<notin> set (digits n)"
proof (induction n rule: digits.induct)
  case (1 n)
  show ?case
  proof (cases "n < 10")
    case True
    from digit_char_not [OF True] show ?thesis
      unfolding digits_small [OF True] by auto
  next
    case False
    have "n mod 10 < 10" by simp
    from "1.IH" [OF False] digit_char_not [OF this] show ?thesis
      unfolding digits_large [OF False] by auto
  qed
qed

lemma digits_long: "\<not> n < 10 \<Longrightarrow> 2 \<le> length (digits n)"
proof -
  assume large: "\<not> n < 10"
  have "1 \<le> length (digits (n div 10))"
    using digits_not_empty [of "n div 10"] by (cases "digits (n div 10)") simp_all
  then show ?thesis
    unfolding digits_large [OF large] by simp
qed

lemma digits_inj: "digits n = digits m \<Longrightarrow> n = m"
proof (induction n arbitrary: m rule: digits.induct)
  case (1 n)
  show ?case
  proof (cases "n < 10")
    case small: True
    show ?thesis
    proof (cases "m < 10")
      case True
      from "1.prems" have "digit_char n = digit_char m"
        unfolding digits_small [OF small] digits_small [OF True] by simp
      with small True show ?thesis
        by (rule digit_char_inj)
    next
      case False
      from "1.prems" digits_small [OF small] have "digits m = [digit_char n]"
        by simp
      then have "length (digits m) = 1"
        by simp
      with digits_long [OF False] show ?thesis
        by simp
    qed
  next
    case large: False
    show ?thesis
    proof (cases "m < 10")
      case True
      from "1.prems" digits_small [OF True] have "digits n = [digit_char m]"
        by simp
      then have "length (digits n) = 1"
        by simp
      with digits_long [OF large] show ?thesis
        by simp
    next
      case False
      from "1.prems" have tens: "digits (n div 10) = digits (m div 10)"
        and units: "digit_char (n mod 10) = digit_char (m mod 10)"
        unfolding digits_large [OF large] digits_large [OF False] by simp_all
      from "1.IH" [OF large tens] have "n div 10 = m div 10" .
      moreover from units have "n mod 10 = m mod 10"
        by (intro digit_char_inj) simp_all
      ultimately show ?thesis
        by (metis div_mult_mod_eq)
    qed
  qed
qed

lemma Number_toString_no_colon: "CHR '':'' \<notin> set (Number_toString n)"
  by (simp add: Number_toString_def digits_no_separator)

lemma Number_toString_inj: "Number_toString n = Number_toString m \<Longrightarrow> n = m"
proof -
  assume eq: "Number_toString n = Number_toString m"
  have no_minus: "hd (digits k) \<noteq> CHR ''-''" for k
    using digits_no_separator [of k] digits_not_empty [of k]
    by (cases "digits k") auto
  show ?thesis
  proof (cases "n < 0")
    case n: True
    show ?thesis
    proof (cases "m < 0")
      case True
      with n eq have "digits (nat (- n)) = digits (nat (- m))"
        by (simp add: Number_toString_def)
      from digits_inj [OF this] n True show ?thesis by simp
    next
      case False
      with n eq have "CHR ''-'' # digits (nat (- n)) = digits (nat m)"
        by (simp add: Number_toString_def)
      then have "hd (digits (nat m)) = CHR ''-''"
        by (metis list.sel(1))
      with no_minus [of "nat m"] show ?thesis
        by simp
    qed
  next
    case n: False
    show ?thesis
    proof (cases "m < 0")
      case True
      with n eq have "digits (nat n) = CHR ''-'' # digits (nat (- m))"
        by (simp add: Number_toString_def)
      then have "hd (digits (nat n)) = CHR ''-''"
        by (metis list.sel(1))
      with no_minus [of "nat n"] show ?thesis
        by simp
    next
      case False
      with n eq have "digits (nat n) = digits (nat m)"
        by (simp add: Number_toString_def)
      from digits_inj [OF this] n False show ?thesis by simp
    qed
  qed
qed

lemma split_at_colon:
  assumes "a @ CHR '':'' # b = a' @ CHR '':'' # b'"
    and "CHR '':'' \<notin> set a" and "CHR '':'' \<notin> set a'"
  shows "a = a' \<and> b = b'"
  using assms
proof (induction a arbitrary: a')
  case Nil
  then show ?case by (cases a') auto
next
  case (Cons x xs)
  then show ?case by (cases a') auto
qed

text \<open>
  What the key of the vehicle list does tell apart: the page and the limit, for numbers of
  the size a template literal renders in plain decimal.
\<close>

lemma vehicle_list_key_page_limit:
  assumes "\<bar>page\<bar> < 10 ^ 21" and "\<bar>limit\<bar> < 10 ^ 21"
    and "\<bar>page'\<bar> < 10 ^ 21" and "\<bar>limit'\<bar> < 10 ^ 21"
  shows "read_key (GET_vehicles user plate page limit)
           = read_key (GET_vehicles user' plate' page' limit')
         \<longleftrightarrow> page = page' \<and> limit = limit'"
proof
  assume "read_key (GET_vehicles user plate page limit)
            = read_key (GET_vehicles user' plate' page' limit')"
  then have "Number_toString page @ CHR '':'' # Number_toString limit
               = Number_toString page' @ CHR '':'' # Number_toString limit'"
    by simp
  then have "Number_toString page = Number_toString page'
      \<and> Number_toString limit = Number_toString limit'"
    by (intro split_at_colon Number_toString_no_colon)
  then show "page = page' \<and> limit = limit'"
    by (simp add: Number_toString_inj)
next
  assume "page = page' \<and> limit = limit'"
  then show "read_key (GET_vehicles user plate page limit)
               = read_key (GET_vehicles user' plate' page' limit')"
    by simp
qed

text \<open>
  C2. The key of the vehicle list is built from the page and the limit alone: the plate
  filter, which is passed on to the service, is no part of it. Two requests that differ only
  in the plate have the same key, so the second one, reading the cache within the expiry of
  the first one's entry, is answered with the list cached for the other plate, not with
  what the service would return for its own.
\<close>

theorem vehicle_list_key_ignores_plate:
  "read_key (GET_vehicles user (Some ''ABC1234'') 1 10)
     = read_key (GET_vehicles user (Some ''XYZ9876'') 1 10)
   \<and> fst (handle_read sample_JSON sample_service (Some ''max-age=0'')
        (GET_vehicles ''SECURITY'' (Some ''ABC1234'') 1 10) sample_world) = Inr [''ABC1234'']
   \<and> events_since sample_world
        (snd (handle_read sample_JSON sample_service (Some ''max-age=0'')
          (GET_vehicles ''SECURITY'' (Some ''ABC1234'') 1 10) sample_world))
       = [RedisGet ''vehicles:1:10'',
          ServiceCall (VehicleService_getAll ''SECURITY'' (Some ''ABC1234'') 1 10),
          RedisSet ''vehicles:1:10'' (plates_stringify [''ABC1234'']) 600]
   \<and> handle_read sample_JSON sample_service (Some ''max-age=0'')
        (GET_vehicles ''SECURITY'' (Some ''XYZ9876'') 1 10)
        (advance 5 (snd (handle_read sample_JSON sample_service (Some ''max-age=0'')
          (GET_vehicles ''SECURITY'' (Some ''ABC1234'') 1 10) sample_world)))
       = (Inr [''ABC1234''],
          sent (RedisGet ''vehicles:1:10'')
            (advance 5 (snd (handle_read sample_JSON sample_service (Some ''max-age=0'')
              (GET_vehicles ''SECURITY'' (Some ''ABC1234'') 1 10) sample_world))))
   \<and> fst (sample_service (VehicleService_getAll ''SECURITY'' (Some ''XYZ9876'') 1 10)
        (db sample_world)) = Inr [''XYZ9876'']"
proof -
  let ?run1 = "handle_read sample_JSON sample_service (Some ''max-age=0'')
                 (GET_vehicles ''SECURITY'' (Some ''ABC1234'') 1 10) sample_world"
  let ?w1 = "(sent (RedisSet ''vehicles:1:10'' (plates_stringify [''ABC1234'']) 600)
          (called (VehicleService_getAll ''SECURITY'' (Some ''ABC1234'') 1 10) (db sample_world)
             (sent (RedisGet ''vehicles:1:10'') sample_world)))
         \<lparr>redis := (redis sample_world)
            (''vehicles:1:10'' \<mapsto> (plates_stringify [''ABC1234''], 600))\<rparr>"
  have run1: "?run1 = (Inr [''ABC1234''], ?w1)"
    by (simp add: VehicleController_getAll_def Let_def render truthy_def redis_get_def
          redis_set_def redis_fails_def redis_lookup_def invoke_def sample_world_def
          sample_JSON_def)
  have p: "parsed sample_JSON (plates_stringify [''ABC1234''])
             = (Inr [''ABC1234''] :: nat exn + string list)"
    by (simp add: parsed_def sample_JSON_def plates_parse_def plates_stringify_def
          json_string_def unquote_def)
  have run2: "handle_read sample_JSON sample_service (Some ''max-age=0'')
        (GET_vehicles ''SECURITY'' (Some ''XYZ9876'') 1 10) (advance 5 ?w1)
      = (parsed sample_JSON (plates_stringify [''ABC1234'']),
         sent (RedisGet ''vehicles:1:10'') (advance 5 ?w1))"
    by (rule hit_within_ttl [where expires = 600])
       (simp_all add: sample_world_def plates_stringify_def reads_cache_def truthy_def
          redis_fails_def render)
  have ev: "events_since sample_world ?w1 =
      [RedisGet ''vehicles:1:10'',
       ServiceCall (VehicleService_getAll ''SECURITY'' (Some ''ABC1234'') 1 10),
       RedisSet ''vehicles:1:10'' (plates_stringify [''ABC1234'']) 600]"
    by (simp add: events_since_def)
  have svc: "fst (sample_service (VehicleService_getAll ''SECURITY'' (Some ''XYZ9876'') 1 10)
        (db sample_world)) = Inr [''XYZ9876'']"
    by (simp add: sample_world_def)
  have key: "read_key (GET_vehicles user (Some ''ABC1234'') 1 10)
     = read_key (GET_vehicles user (Some ''XYZ9876'') 1 10)"
    by simp
  from key ev svc run2 show ?thesis
    unfolding run1 p by simp
qed

section \<open>Failures of the cache\<close>

text \<open>
  C3 (as the code has it). The handlers catch nothing, so a Redis command that fails makes
  the request fail with that error. A failed GET surfaces before the service is invoked: the
  GET is the only event. A failed SET, on the path that does not read the cache or after a
  miss, surfaces after the service has run: the value it returned is not handed to the caller
  and the keyspace is as before.
\<close>

theorem cache_failure_reaches_caller:
  assumes "handle_read JSON svc cacheOption req w = (r, w')"
  shows "(reads_cache cacheOption \<and> redis_fails w \<longrightarrow>
            r = Inl RedisError \<and> events_since w w' = [RedisGet (read_key req)]
            \<and> service_calls (events_since w w') = 0)
    \<and> (\<forall>v d'. \<not> reads_cache cacheOption \<and> redis_fails w
            \<and> svc (read_call req) (db w) = (Inr v, d') \<longrightarrow>
          r = Inl RedisError \<and> redis w' = redis w
          \<and> events_since w w' =
               [ServiceCall (read_call req), RedisSet (read_key req) (stringify JSON v) 600])
    \<and> (\<forall>v d'. reads_cache cacheOption \<and> \<not> redis_fails w
            \<and> (redis_lookup w (read_key req) = None \<or> redis_lookup w (read_key req) = Some [])
            \<and> redis_fails (sent (RedisGet (read_key req)) w)
            \<and> svc (read_call req) (db w) = (Inr v, d') \<longrightarrow>
          r = Inl RedisError \<and> redis w' = redis w
          \<and> events_since w w' =
               [RedisGet (read_key req), ServiceCall (read_call req),
                RedisSet (read_key req) (stringify JSON v) 600])"
proof (intro conjI allI impI)
  note run = assms [unfolded handle_read_cache_aside]
  {
    assume "reads_cache cacheOption \<and> redis_fails w"
    with run have "r = Inl RedisError" and w': "w' = sent (RedisGet (read_key req)) w"
      by (simp_all add: cache_aside_get_fails)
    then show "r = Inl RedisError" by simp
    show ev: "events_since w w' = [RedisGet (read_key req)]"
      by (simp add: w' events_since_def)
    show "service_calls (events_since w w') = 0"
      by (simp add: ev service_calls_def)
  }
  {
    fix v d'
    assume a: "\<not> reads_cache cacheOption \<and> redis_fails w
                 \<and> svc (read_call req) (db w) = (Inr v, d')"
    with run have "(r, w') = (Inl RedisError,
        sent (RedisSet (read_key req) (stringify JSON v) 600) (called (read_call req) d' w))"
      by (simp add: cache_aside_bypass load_and_store_set_fails)
    then have r: "r = Inl RedisError"
      and w': "w' = sent (RedisSet (read_key req) (stringify JSON v) 600)
                      (called (read_call req) d' w)"
      by simp_all
    show "r = Inl RedisError" by (rule r)
    show "redis w' = redis w" by (simp add: w')
    show "events_since w w' =
        [ServiceCall (read_call req), RedisSet (read_key req) (stringify JSON v) 600]"
      by (simp add: w' events_since_def)
  }
  {
    fix v d'
    assume a: "reads_cache cacheOption \<and> \<not> redis_fails w
        \<and> (redis_lookup w (read_key req) = None \<or> redis_lookup w (read_key req) = Some [])
        \<and> redis_fails (sent (RedisGet (read_key req)) w)
        \<and> svc (read_call req) (db w) = (Inr v, d')"
    let ?w1 = "sent (RedisGet (read_key req)) w"
    from a run have "load_and_store JSON svc (read_key req) (read_call req) ?w1 = (r, w')"
      by (simp add: cache_aside_miss)
    moreover from a have "svc (read_call req) (db ?w1) = (Inr v, d')" and "redis_fails ?w1"
      by simp_all
    ultimately have "(r, w') = (Inl RedisError,
        sent (RedisSet (read_key req) (stringify JSON v) 600) (called (read_call req) d' ?w1))"
      by (simp add: load_and_store_set_fails)
    then have r: "r = Inl RedisError"
      and w': "w' = sent (RedisSet (read_key req) (stringify JSON v) 600)
                      (called (read_call req) d' ?w1)"
      by simp_all
    show "r = Inl RedisError" by (rule r)
    show "redis w' = redis w" by (simp add: w')
    show "events_since w w' =
        [RedisGet (read_key req), ServiceCall (read_call req),
         RedisSet (read_key req) (stringify JSON v) 600]"
      by (simp add: w' events_since_def)
  }
qed

theorem cache_failure_reaches_caller_witness:
  "fst (handle_read sample_JSON sample_service None (GET_vehicles_id ''SECURITY'' 2)
        (sample_world\<lparr>redis_faults := [True]\<rparr>)) = Inl RedisError
   \<and> events_since (sample_world\<lparr>redis_faults := [True]\<rparr>)
        (snd (handle_read sample_JSON sample_service None (GET_vehicles_id ''SECURITY'' 2)
          (sample_world\<lparr>redis_faults := [True]\<rparr>)))
       = [ServiceCall (VehicleService_getById ''SECURITY'' 2),
          RedisSet ''vehicles:2'' (plates_stringify [''XYZ9876'']) 600]
   \<and> redis (snd (handle_read sample_JSON sample_service None (GET_vehicles_id ''SECURITY'' 2)
        (sample_world\<lparr>redis_faults := [True]\<rparr>))) = Map.empty"
proof -
  let ?w = "sample_world\<lparr>redis_faults := [True]\<rparr>"
  let ?req = "GET_vehicles_id ''SECURITY'' 2 :: string read_request"
  have h: "\<not> reads_cache None \<and> redis_fails ?w
             \<and> sample_service (read_call ?req) (db ?w) = (Inr [''XYZ9876''], db ?w)"
    by (simp add: reads_cache_def truthy_def redis_fails_def sample_world_def)
  note inst = cache_failure_reaches_caller [where JSON = sample_JSON and svc = sample_service
      and cacheOption = None and req = ?req and w = ?w, OF surjective_pairing]
  from inst [THEN conjunct2, THEN conjunct1, rule_format, OF h]
  show ?thesis
    by (simp add: render sample_JSON_def sample_world_def)
qed

text \<open>
  As the spec words it, the property fails: with Redis unreachable, a read of the cache for the vehicle
  list does not answer with the list the service would give; the request fails with the
  Redis error and the service is never invoked.
\<close>

theorem cache_failure_fails_request_counterexample:
  "fst (handle_read sample_JSON sample_service (Some ''max-age=0'')
        (GET_vehicles ''SECURITY'' None 1 10) (sample_world\<lparr>redis_faults := [True]\<rparr>))
     = Inl RedisError
   \<and> fst (sample_service (VehicleService_getAll ''SECURITY'' None 1 10) (db sample_world))
     = Inr [''ABC1234'', ''XYZ9876'']
   \<and> service_calls (events_since (sample_world\<lparr>redis_faults := [True]\<rparr>)
        (snd (handle_read sample_JSON sample_service (Some ''max-age=0'')
          (GET_vehicles ''SECURITY'' None 1 10) (sample_world\<lparr>redis_faults := [True]\<rparr>)))) = 0"
  by (simp add: VehicleController_getAll_def Let_def truthy_def redis_get_def redis_fails_def
        sample_world_def sent_def events_since_def service_calls_def)

section \<open>Bypass\<close>

text \<open>
  C4. A request with \<^verbatim>\<open>Cache-Control: no-cache\<close> sends no GET to Redis and invokes the service,
  first and once. When the service returns a value, the handler sends a SET of the
  serialized value under the request's key with expiry 600; unless that command fails, the
  value is returned and the entry is in the keyspace, so that a later request for the same
  key that reads the cache, less than 600 seconds on, is answered from that entry: its only
  event is the GET and its result the deserialization of the stored text.
\<close>

theorem bypass_invokes_loader_and_repopulates:
  assumes "handle_read JSON svc (Some ''no-cache'') req w = (r, w')"
  shows "filter is_RedisGet (events_since w w') = []
    \<and> hd (events_since w w') = ServiceCall (read_call req)
    \<and> service_calls (events_since w w') = 1
    \<and> (\<forall>v d'. svc (read_call req) (db w) = (Inr v, d') \<longrightarrow>
         events_since w w' =
           [ServiceCall (read_call req), RedisSet (read_key req) (stringify JSON v) 600]
         \<and> (\<not> redis_fails w \<longrightarrow>
              r = Inr v
              \<and> redis w' (read_key req) = Some (stringify JSON v, now w + 600)
              \<and> (\<forall>cacheOption2 d. reads_cache cacheOption2 \<and> d < 600 \<and> \<not> redis_fails w'
                     \<and> stringify JSON v \<noteq> [] \<longrightarrow>
                   handle_read JSON svc cacheOption2 req (advance d w') =
                     (parsed JSON (stringify JSON v),
                      sent (RedisGet (read_key req)) (advance d w')))))"
proof -
  have off: "\<not> reads_cache (Some ''no-cache'')"
    by (simp add: reads_cache_def)
  note evs = unread_cache_events [OF off assms]
  have 1: "filter is_RedisGet (events_since w w') = []"
    by (simp add: evs split: sum.splits)
  have 2: "hd (events_since w w') = ServiceCall (read_call req)"
    by (simp add: evs split: sum.splits)
  have 3: "service_calls (events_since w w') = 1"
    by (simp add: evs service_calls_def split: sum.splits)
  have 4: "events_since w w' =
             [ServiceCall (read_call req), RedisSet (read_key req) (stringify JSON v) 600]
           \<and> (\<not> redis_fails w \<longrightarrow>
                r = Inr v
                \<and> redis w' (read_key req) = Some (stringify JSON v, now w + 600)
                \<and> (\<forall>cacheOption2 d. reads_cache cacheOption2 \<and> d < 600 \<and> \<not> redis_fails w'
                       \<and> stringify JSON v \<noteq> [] \<longrightarrow>
                     handle_read JSON svc cacheOption2 req (advance d w') =
                       (parsed JSON (stringify JSON v),
                        sent (RedisGet (read_key req)) (advance d w'))))"
    if ret: "svc (read_call req) (db w) = (Inr v, d')" for v d'
  proof (intro conjI impI allI)
    show "events_since w w' =
            [ServiceCall (read_call req), RedisSet (read_key req) (stringify JSON v) 600]"
      by (simp add: evs ret)
    assume up: "\<not> redis_fails w"
    note st = unread_cache_stores [OF off assms ret up]
    show "r = Inr v" by (rule st(1))
    show entry: "redis w' (read_key req) = Some (stringify JSON v, now w + 600)"
      by (simp add: st(2))
    fix cacheOption2 and d :: nat
    assume later: "reads_cache cacheOption2 \<and> d < 600 \<and> \<not> redis_fails w'
                     \<and> stringify JSON v \<noteq> []"
    have t: "now w' = now w"
      by (simp add: st(2))
    from later show "handle_read JSON svc cacheOption2 req (advance d w') =
        (parsed JSON (stringify JSON v), sent (RedisGet (read_key req)) (advance d w'))"
      by (intro hit_within_ttl [OF entry]) (simp_all add: t)
  qed
  from 1 2 3 4 show ?thesis by blast
qed

theorem bypass_invokes_loader_and_repopulates_witness:
  "fst (handle_read sample_JSON sample_service (Some ''no-cache'')
        (GET_vehicles_id ''ADMIN'' 2) sample_world) = Inr [''XYZ9876'']
   \<and> events_since sample_world
        (snd (handle_read sample_JSON sample_service (Some ''no-cache'')
          (GET_vehicles_id ''ADMIN'' 2) sample_world))
       = [ServiceCall (VehicleService_getById ''ADMIN'' 2),
          RedisSet ''vehicles:2'' (plates_stringify [''XYZ9876'']) 600]
   \<and> handle_read sample_JSON sample_service (Some ''max-age=0'') (GET_vehicles_id ''ADMIN'' 2)
        (advance 599 (snd (handle_read sample_JSON sample_service (Some ''no-cache'')
          (GET_vehicles_id ''ADMIN'' 2) sample_world)))
       = (Inr [''XYZ9876''],
          sent (RedisGet ''vehicles:2'')
            (advance 599 (snd (handle_read sample_JSON sample_service (Some ''no-cache'')
              (GET_vehicles_id ''ADMIN'' 2) sample_world))))"
proof -
  let ?req = "GET_vehicles_id ''ADMIN'' 2 :: string read_request"
  let ?w' = "snd (handle_read sample_JSON sample_service (Some ''no-cache'') ?req sample_world)"
  have ret: "sample_service (read_call ?req) (db sample_world)
               = (Inr [''XYZ9876''], db sample_world)"
    by (simp add: sample_world_def)
  have up: "\<not> redis_fails sample_world"
    by (simp add: redis_fails_def sample_world_def)
  have up': "\<not> redis_fails ?w'"
    by (simp add: VehicleController_getById_def Let_def invoke_def redis_set_def
          redis_fails_def sample_world_def called_def sent_def)
  have h: "reads_cache (Some ''max-age=0'')"
    by (simp add: reads_cache_def truthy_def)
  have s: "stringify sample_JSON [''XYZ9876''] \<noteq> []"
    by (simp add: sample_JSON_def plates_stringify_def)
  have p: "parsed sample_JSON (stringify sample_JSON [''XYZ9876''])
             = (Inr [''XYZ9876''] :: nat exn + string list)"
    by (simp add: parsed_def sample_JSON_def plates_parse_def plates_stringify_def
          json_string_def unquote_def)
  note inst = bypass_invokes_loader_and_repopulates [where JSON = sample_JSON
      and svc = sample_service and req = ?req and w = sample_world, OF surjective_pairing]
  from inst ret have a: "events_since sample_world ?w' =
      [ServiceCall (read_call ?req),
       RedisSet (read_key ?req) (stringify sample_JSON [''XYZ9876'']) 600]"
    by blast
  from inst ret up have b: "fst (handle_read sample_JSON sample_service (Some ''no-cache'')
      ?req sample_world) = Inr [''XYZ9876'']"
    by blast
  from inst ret up
  have "\<forall>cacheOption2 d. reads_cache cacheOption2 \<and> d < 600 \<and> \<not> redis_fails ?w'
            \<and> stringify sample_JSON [''XYZ9876''] \<noteq> [] \<longrightarrow>
          handle_read sample_JSON sample_service cacheOption2 ?req (advance d ?w') =
            (parsed sample_JSON (stringify sample_JSON [''XYZ9876'']),
             sent (RedisGet (read_key ?req)) (advance d ?w'))"
    by blast
  from this [rule_format, of "Some ''max-age=0''" 599] up' h s
  have c: "handle_read sample_JSON sample_service (Some ''max-age=0'')
      ?req (advance 599 ?w') =
        (parsed sample_JSON (stringify sample_JSON [''XYZ9876'']),
         sent (RedisGet (read_key ?req)) (advance 599 ?w'))"
    by simp
  have j: "stringify sample_JSON = plates_stringify"
    by (simp add: sample_JSON_def)
  from a b c show ?thesis
    by (simp add: render j p [unfolded j])
qed

section \<open>Cache hits\<close>

text \<open>
  C5. On a cache hit (the cache is consulted, the GET command succeeds and answers a
  non-empty text, which is what the handlers' test \<^verbatim>\<open>if (cached)\<close> accepts) the response is
  exactly the deserialization of the cached text, the only event of the request is that GET:
  the service is not invoked, nothing is written, and the keyspace with its expiry instants
  and the record store are as before.
\<close>

theorem cache_hit_skips_loader_and_write:
  assumes "reads_cache cacheOption"
    and "\<not> redis_fails w"
    and "redis_lookup w (read_key req) = Some s"
    and "s \<noteq> []"
    and "handle_read JSON svc cacheOption req w = (r, w')"
  shows "r = parsed JSON s \<and> events_since w w' = [RedisGet (read_key req)]
           \<and> service_calls (events_since w w') = 0
           \<and> filter is_RedisSet (events_since w w') = []
           \<and> redis w' = redis w \<and> db w' = db w"
proof -
  have "handle_read JSON svc cacheOption req w = (parsed JSON s, sent (RedisGet (read_key req)) w)"
    using assms(1-4) by (simp add: handle_read_cache_aside cache_aside_hit)
  with assms(5) have r: "r = parsed JSON s" and w': "w' = sent (RedisGet (read_key req)) w"
    by simp_all
  have "events_since w w' = [RedisGet (read_key req)]"
    by (rule events_since_append) (simp add: w')
  then show ?thesis
    by (simp add: r w' service_calls_def)
qed

theorem cache_hit_skips_loader_and_write_witness:
  "reads_cache (Some ''max-age=0'')
   \<and> redis_lookup (sample_world\<lparr>redis := [''vehicles:1'' \<mapsto> (plates_stringify [''OLD0001''], 600)]\<rparr>)
        (read_key (GET_vehicles_id ''SECURITY'' 1)) = Some (plates_stringify [''OLD0001''])
   \<and> fst (handle_read sample_JSON sample_service (Some ''max-age=0'') (GET_vehicles_id ''SECURITY'' 1)
        (sample_world\<lparr>redis := [''vehicles:1'' \<mapsto> (plates_stringify [''OLD0001''], 600)]\<rparr>))
       = Inr [''OLD0001'']
   \<and> events_since (sample_world\<lparr>redis := [''vehicles:1'' \<mapsto> (plates_stringify [''OLD0001''], 600)]\<rparr>)
        (snd (handle_read sample_JSON sample_service (Some ''max-age=0'') (GET_vehicles_id ''SECURITY'' 1)
          (sample_world\<lparr>redis := [''vehicles:1'' \<mapsto> (plates_stringify [''OLD0001''], 600)]\<rparr>)))
       = [RedisGet ''vehicles:1'']"
proof -
  let ?w = "sample_world\<lparr>redis := [''vehicles:1'' \<mapsto> (plates_stringify [''OLD0001''], 600)]\<rparr>"
  let ?req = "GET_vehicles_id ''SECURITY'' 1 :: string read_request"
  let ?s = "plates_stringify [''OLD0001'']"
  have key: "read_key ?req = ''vehicles:1''"
    by (simp add: render)
  have h1: "reads_cache (Some ''max-age=0'')"
    by (simp add: reads_cache_def truthy_def)
  have h2: "\<not> redis_fails ?w"
    by (simp add: redis_fails_def sample_world_def)
  have h3: "redis_lookup ?w (read_key ?req) = Some ?s"
    by (simp add: render redis_lookup_def sample_world_def)
  have h4: "?s \<noteq> []"
    by (simp add: plates_stringify_def)
  have p: "parsed sample_JSON ?s = (Inr [''OLD0001''] :: nat exn + string list)"
    by (simp add: parsed_def sample_JSON_def plates_parse_def plates_stringify_def
          json_string_def unquote_def)
  from cache_hit_skips_loader_and_write [OF h1 h2 h3 h4 surjective_pairing,
      where JSON = sample_JSON and svc = sample_service]
  show ?thesis
    using h1 h3 by (simp add: p render)
qed

section \<open>Requests that do not read the cache\<close>

text \<open>
  C6. A request without the Cache-Control header behaves exactly as one with
  \<^verbatim>\<open>Cache-Control: no-cache\<close>: the outcome and the world after it are the same. For both,
  no GET is sent to Redis, the service is invoked (first, and once), and when it returns a
  value the handler sends a SET of the serialized value under the request's key with expiry
  600, which, unless the command fails, returns the value and leaves the entry in the
  keyspace. A GET is sent to Redis only when a Cache-Control header with a value other than
  \<^verbatim>\<open>no-cache\<close> was supplied.
\<close>

theorem absent_header_behaves_as_no_cache:
  assumes "handle_read JSON svc cacheOption req w = (r, w')"
  shows "handle_read JSON svc None req w = handle_read JSON svc (Some ''no-cache'') req w
    \<and> (cacheOption = None \<or> cacheOption = Some ''no-cache'' \<longrightarrow>
         filter is_RedisGet (events_since w w') = []
         \<and> hd (events_since w w') = ServiceCall (read_call req)
         \<and> service_calls (events_since w w') = 1
         \<and> (\<forall>v d'. svc (read_call req) (db w) = (Inr v, d') \<longrightarrow>
              events_since w w' =
                [ServiceCall (read_call req), RedisSet (read_key req) (stringify JSON v) 600]
              \<and> (\<not> redis_fails w \<longrightarrow>
                   r = Inr v \<and> redis w' (read_key req) = Some (stringify JSON v, now w + 600))))
    \<and> (filter is_RedisGet (events_since w w') \<noteq> [] \<longrightarrow>
         (\<exists>h. cacheOption = Some h \<and> h \<noteq> ''no-cache''))"
proof (intro conjI impI)
  show "handle_read JSON svc None req w = handle_read JSON svc (Some ''no-cache'') req w"
    by (simp add: handle_read_cache_aside cache_aside_bypass reads_cache_def truthy_def)
next
  note ev = cache_aside_events [OF assms [unfolded handle_read_cache_aside]]
  {
    assume "cacheOption = None \<or> cacheOption = Some ''no-cache''"
    then have off: "\<not> reads_cache cacheOption"
      by (auto simp: reads_cache_def truthy_def)
    with ev have evs: "events_since w w' =
        (case fst (svc (read_call req) (db w)) of
           Inl e \<Rightarrow> [ServiceCall (read_call req)]
         | Inr v \<Rightarrow> [ServiceCall (read_call req),
                      RedisSet (read_key req) (stringify JSON v) 600])"
      by simp
    show "filter is_RedisGet (events_since w w') = []"
      by (simp add: evs split: sum.splits)
    show "hd (events_since w w') = ServiceCall (read_call req)"
      by (simp add: evs split: sum.splits)
    show "service_calls (events_since w w') = 1"
      by (simp add: evs service_calls_def split: sum.splits)
    show "\<forall>v d'. svc (read_call req) (db w) = (Inr v, d') \<longrightarrow>
            events_since w w' =
              [ServiceCall (read_call req), RedisSet (read_key req) (stringify JSON v) 600]
            \<and> (\<not> redis_fails w \<longrightarrow>
                 r = Inr v \<and> redis w' (read_key req) = Some (stringify JSON v, now w + 600))"
    proof (intro allI impI conjI)
      fix v d'
      assume ret: "svc (read_call req) (db w) = (Inr v, d')"
      then show "events_since w w' =
          [ServiceCall (read_call req), RedisSet (read_key req) (stringify JSON v) 600]"
        by (simp add: evs)
      assume up: "\<not> redis_fails w"
      from assms off have "load_and_store JSON svc (read_key req) (read_call req) w = (r, w')"
        by (simp add: handle_read_cache_aside cache_aside_bypass)
      with load_and_store_stores [where svc = svc and c = "read_call req" and w = w
          and JSON = JSON and key = "read_key req", OF ret up]
      show "r = Inr v" and "redis w' (read_key req) = Some (stringify JSON v, now w + 600)"
        by auto
    qed
  }
  {
    assume "filter is_RedisGet (events_since w w') \<noteq> []"
    with ev have "reads_cache cacheOption"
      by (cases "reads_cache cacheOption") (auto split: sum.splits)
    then show "\<exists>h. cacheOption = Some h \<and> h \<noteq> ''no-cache''"
      by (cases cacheOption) (auto simp: reads_cache_def truthy_def)
  }
qed

theorem absent_header_behaves_as_no_cache_witness:
  "handle_read sample_JSON sample_service None (GET_vehicles ''SECURITY'' None 1 10) sample_world
     = handle_read sample_JSON sample_service (Some ''no-cache'')
         (GET_vehicles ''SECURITY'' None 1 10) sample_world
   \<and> fst (handle_read sample_JSON sample_service None (GET_vehicles ''SECURITY'' None 1 10)
        sample_world) = Inr [''ABC1234'', ''XYZ9876'']
   \<and> events_since sample_world
        (snd (handle_read sample_JSON sample_service None (GET_vehicles ''SECURITY'' None 1 10)
          sample_world))
       = [ServiceCall (VehicleService_getAll ''SECURITY'' None 1 10),
          RedisSet ''vehicles:1:10'' (plates_stringify [''ABC1234'', ''XYZ9876'']) 600]
   \<and> redis (snd (handle_read sample_JSON sample_service None (GET_vehicles ''SECURITY'' None 1 10)
        sample_world)) ''vehicles:1:10''
       = Some (plates_stringify [''ABC1234'', ''XYZ9876''], 600)"
proof -
  let ?req = "GET_vehicles ''SECURITY'' None 1 10 :: string read_request"
  have ret: "sample_service (read_call ?req) (db sample_world)
               = (Inr [''ABC1234'', ''XYZ9876''], db sample_world)"
    by (simp add: sample_world_def)
  have up: "\<not> redis_fails sample_world"
    by (simp add: redis_fails_def sample_world_def)
  have t0: "now sample_world = 0"
    by (simp add: sample_world_def)
  note inst = absent_header_behaves_as_no_cache [where JSON = sample_JSON and svc = sample_service
      and cacheOption = None and req = ?req and w = sample_world, OF surjective_pairing]
  from inst [THEN conjunct2, THEN conjunct1] ret up
  have "fst (handle_read sample_JSON sample_service None ?req sample_world)
          = Inr [''ABC1234'', ''XYZ9876'']
        \<and> events_since sample_world
            (snd (handle_read sample_JSON sample_service None ?req sample_world))
          = [ServiceCall (VehicleService_getAll ''SECURITY'' None 1 10),
             RedisSet ''vehicles:1:10'' (plates_stringify [''ABC1234'', ''XYZ9876'']) 600]
        \<and> redis (snd (handle_read sample_JSON sample_service None ?req sample_world))
            ''vehicles:1:10''
          = Some (plates_stringify [''ABC1234'', ''XYZ9876''], 600)"
    by (simp add: render sample_JSON_def t0)
  with inst [THEN conjunct1] show ?thesis
    by blast
qed

section \<open>Mutations\<close>

lemma handle_mutation_invoke:
  "handle_mutation svc m w = invoke svc (mutation_call m) w"
  by (cases m)
     (simp_all add: VehicleController_update_def VehicleController_delete_def
        SectionController_update_def SectionController_delete_def)

text \<open>
  C7. A mutation (vehicle plate update, vehicle delete, section update, section delete)
  sends nothing to Redis: its only event is the call of the service method, and the
  keyspace, with every entry and its expiry instant, is as before. So a later read of the
  cache for a key that held a non-empty text before the mutation, at an instant before that
  entry expires, returns the deserialization of that text (the value from before the
  update) without a service call.
\<close>

theorem mutations_leave_cache_entries:
  assumes "handle_mutation svc m w = (r, w')"
  shows "redis w' = redis w
    \<and> events_since w w' = [ServiceCall (mutation_call m)]
    \<and> filter is_RedisGet (events_since w w') = []
    \<and> filter is_RedisSet (events_since w w') = []
    \<and> (\<forall>cacheOption q s expires d.
          reads_cache cacheOption \<and> redis w (read_key q) = Some (s, expires)
            \<and> now w + d < expires \<and> s \<noteq> [] \<and> \<not> redis_fails w \<longrightarrow>
          handle_read JSON svc cacheOption q (advance d w') =
            (parsed JSON s, sent (RedisGet (read_key q)) (advance d w')))"
proof -
  obtain x d' where ret: "svc (mutation_call m) (db w) = (x, d')"
    by (cases "svc (mutation_call m) (db w)")
  with assms have w': "w' = called (mutation_call m) d' w"
    by (simp add: handle_mutation_invoke invoke_def)
  have ev: "events_since w w' = [ServiceCall (mutation_call m)]"
    by (simp add: w' events_since_def)
  have stale: "handle_read JSON svc cacheOption q (advance d w') =
      (parsed JSON s, sent (RedisGet (read_key q)) (advance d w'))"
    if "reads_cache cacheOption \<and> redis w (read_key q) = Some (s, expires)
          \<and> now w + d < expires \<and> s \<noteq> [] \<and> \<not> redis_fails w"
    for cacheOption q s expires and d :: nat
    using that by (intro hit_within_ttl [where expires = expires]) (simp_all add: w')
  have "redis w' = redis w"
    by (simp add: w')
  moreover note ev
  moreover have "filter is_RedisGet (events_since w w') = []"
    and "filter is_RedisSet (events_since w w') = []"
    by (simp_all add: ev)
  moreover from stale have "\<forall>cacheOption q s expires d.
          reads_cache cacheOption \<and> redis w (read_key q) = Some (s, expires)
            \<and> now w + d < expires \<and> s \<noteq> [] \<and> \<not> redis_fails w \<longrightarrow>
          handle_read JSON svc cacheOption q (advance d w') =
            (parsed JSON s, sent (RedisGet (read_key q)) (advance d w'))"
    by blast
  ultimately show ?thesis
    by (intro conjI)
qed

theorem mutations_leave_cache_entries_witness:
  "fst (handle_mutation sample_service (PATCH_vehicles_id 1 (Some ''NEW0001''))
        (sample_world\<lparr>redis := [''vehicles:1'' \<mapsto> (plates_stringify [''ABC1234''], 600)]\<rparr>))
     = (Inr [''NEW0001''] :: nat exn + string list)
   \<and> db (snd (handle_mutation sample_service (PATCH_vehicles_id 1 (Some ''NEW0001''))
        (sample_world\<lparr>redis := [''vehicles:1'' \<mapsto> (plates_stringify [''ABC1234''], 600)]\<rparr>)))
     = [(1, ''NEW0001''), (2, ''XYZ9876'')]
   \<and> fst (handle_read sample_JSON sample_service (Some ''max-age=0'') (GET_vehicles_id ''ADMIN'' 1)
        (advance 10 (snd (handle_mutation sample_service (PATCH_vehicles_id 1 (Some ''NEW0001''))
          (sample_world\<lparr>redis := [''vehicles:1'' \<mapsto> (plates_stringify [''ABC1234''], 600)]\<rparr>)))))
     = Inr [''ABC1234'']"
proof -
  let ?w = "sample_world\<lparr>redis := [''vehicles:1'' \<mapsto> (plates_stringify [''ABC1234''], 600)]\<rparr>"
  let ?m = "PATCH_vehicles_id 1 (Some ''NEW0001'') :: (string, string) mutation_request"
  let ?q = "GET_vehicles_id ''ADMIN'' 1 :: string read_request"
  have run: "handle_mutation sample_service ?m ?w =
      (Inr [''NEW0001''],
       called (VehicleService_update 1 (Some ''NEW0001'')) [(1, ''NEW0001''), (2, ''XYZ9876'')] ?w)"
    by (simp add: VehicleController_update_def invoke_def sample_world_def)
  have h: "reads_cache (Some ''max-age=0'')
      \<and> redis ?w (read_key ?q) = Some (plates_stringify [''ABC1234''], 600)
      \<and> now ?w + 10 < 600 \<and> plates_stringify [''ABC1234''] \<noteq> [] \<and> \<not> redis_fails ?w"
    by (simp add: reads_cache_def truthy_def render sample_world_def plates_stringify_def
          redis_fails_def)
  have p: "parsed sample_JSON (plates_stringify [''ABC1234''])
             = (Inr [''ABC1234''] :: nat exn + string list)"
    by (simp add: parsed_def sample_JSON_def plates_parse_def plates_stringify_def
          json_string_def unquote_def)
  note inst = mutations_leave_cache_entries [where svc = sample_service and m = ?m and w = ?w
      and JSON = sample_JSON, OF surjective_pairing]
  from inst have "\<forall>cacheOption q s expires d.
          reads_cache cacheOption \<and> redis ?w (read_key q) = Some (s, expires)
            \<and> now ?w + d < expires \<and> s \<noteq> [] \<and> \<not> redis_fails ?w \<longrightarrow>
          handle_read sample_JSON sample_service cacheOption q
            (advance d (snd (handle_mutation sample_service ?m ?w))) =
            (parsed sample_JSON s, sent (RedisGet (read_key q))
              (advance d (snd (handle_mutation sample_service ?m ?w))))"
    by blast
  from this [rule_format, of "Some ''max-age=0''" ?q "plates_stringify [''ABC1234'']" 600 10, OF h]
  have "fst (handle_read sample_JSON sample_service (Some ''max-age=0'') ?q
          (advance 10 (snd (handle_mutation sample_service ?m ?w)))) = Inr [''ABC1234'']"
    by (simp only: p fst_conv)
  then show ?thesis
    unfolding run by simp
qed

section \<open>Cached texts that do not parse\<close>

text \<open>
  C8 (as the code has it). On a read of the cache, when the GET answers a non-empty text
  that \<^verbatim>\<open>JSON.parse\<close> rejects, the SyntaxError reaches the caller: the service is not
  invoked, nothing is stored, and the keyspace is as before.
\<close>

theorem unparsable_entry_reaches_caller:
  assumes "reads_cache cacheOption"
    and "\<not> redis_fails w"
    and "redis_lookup w (read_key req) = Some s"
    and "s \<noteq> []"
    and "parse JSON s = None"
    and "handle_read JSON svc cacheOption req w = (r, w')"
  shows "r = Inl SyntaxError \<and> events_since w w' = [RedisGet (read_key req)]
    \<and> service_calls (events_since w w') = 0
    \<and> filter is_RedisSet (events_since w w') = []
    \<and> redis w' = redis w"
proof -
  from assms have "(r, w') = (parsed JSON s, sent (RedisGet (read_key req)) w)"
    by (simp add: handle_read_cache_aside cache_aside_hit)
  with assms(5) have r: "r = Inl SyntaxError" and w': "w' = sent (RedisGet (read_key req)) w"
    by (simp_all add: parsed_def)
  have ev: "events_since w w' = [RedisGet (read_key req)]"
    by (simp add: w' events_since_def)
  show ?thesis
    by (simp add: r ev service_calls_def) (simp add: w')
qed

theorem unparsable_entry_reaches_caller_witness:
  "parse sample_JSON ''{'' = None
   \<and> fst (handle_read sample_JSON sample_service (Some ''max-age=0'')
        (GET_sections ''ADMIN'') (sample_world\<lparr>redis := [''sections'' \<mapsto> (''{'', 600)]\<rparr>))
     = Inl SyntaxError
   \<and> events_since (sample_world\<lparr>redis := [''sections'' \<mapsto> (''{'', 600)]\<rparr>)
        (snd (handle_read sample_JSON sample_service (Some ''max-age=0'')
          (GET_sections ''ADMIN'') (sample_world\<lparr>redis := [''sections'' \<mapsto> (''{'', 600)]\<rparr>)))
     = [RedisGet ''sections'']"
proof -
  let ?w = "sample_world\<lparr>redis := [''sections'' \<mapsto> (''{'', 600)]\<rparr>"
  let ?req = "GET_sections ''ADMIN'' :: string read_request"
  have h1: "reads_cache (Some ''max-age=0'')"
    by (simp add: reads_cache_def truthy_def)
  have h2: "\<not> redis_fails ?w"
    by (simp add: redis_fails_def sample_world_def)
  have h3: "redis_lookup ?w (read_key ?req) = Some ''{''"
    by (simp add: redis_lookup_def sample_world_def)
  have h4: "''{'' \<noteq> []"
    by simp
  have h5: "parse sample_JSON ''{'' = None"
    by (simp add: sample_JSON_def plates_parse_def)
  from unparsable_entry_reaches_caller [where JSON = sample_JSON and svc = sample_service,
      OF h1 h2 h3 h4 h5 surjective_pairing] h5
  show ?thesis
    by simp
qed

text \<open>
  As the spec words it, the property fails: a cached text that does not parse is not treated as a miss.
  The vehicle is in the record store, yet the request ends in the SyntaxError and the
  service is never invoked.
\<close>

theorem unparsable_entry_not_a_miss_counterexample:
  "fst (handle_read sample_JSON sample_service (Some ''max-age=0'')
        (GET_vehicles_id ''ADMIN'' 1) (sample_world\<lparr>redis := [''vehicles:1'' \<mapsto> (''{'', 600)]\<rparr>))
     = Inl SyntaxError
   \<and> fst (sample_service (VehicleService_getById ''ADMIN'' 1) (db sample_world))
     = Inr [''ABC1234'']
   \<and> service_calls (events_since (sample_world\<lparr>redis := [''vehicles:1'' \<mapsto> (''{'', 600)]\<rparr>)
        (snd (handle_read sample_JSON sample_service (Some ''max-age=0'')
          (GET_vehicles_id ''ADMIN'' 1)
          (sample_world\<lparr>redis := [''vehicles:1'' \<mapsto> (''{'', 600)]\<rparr>)))) = 0"
  by (simp add: VehicleController_getById_def Let_def truthy_def redis_get_def redis_fails_def
        redis_lookup_def sample_world_def sent_def events_since_def service_calls_def render
        sample_JSON_def plates_parse_def)

section \<open>Expiry of the entries written\<close>

lemma load_and_store_writes:
  assumes "load_and_store JSON svc key c w1 = (r, w')"
    and "RedisSet k s t \<in> set (drop n (trace w'))"
    and "RedisSet k s t \<notin> set (drop n (trace w1))"
    and "n \<le> length (trace w1)"
  shows "t = 600 \<and> k = key
    \<and> (\<exists>v d'. svc c (db w1) = (Inr v, d') \<and> s = stringify JSON v)
    \<and> (\<forall>v. r = Inr v \<longrightarrow> s = stringify JSON v \<and> redis w' k = Some (s, now w1 + 600))"
proof (cases rule: load_and_store_cases [of svc c w1 JSON key])
  case (throws e d')
  with assms show ?thesis by auto
next
  case (set_fails v d')
  with assms show ?thesis by auto
next
  case (stores v d')
  with assms show ?thesis by auto
qed

text \<open>
  C9. Whatever SET a cached read endpoint (vehicle list, vehicle by id, section list,
  section by id) sends to Redis carries the expiry 600, the request's key, and the
  serialization of the value the service returned; and when the request returns that value,
  the entry in the keyspace expires 600 seconds after the request.
\<close>

theorem cache_writes_carry_ttl_600:
  assumes "handle_read JSON svc cacheOption req w = (r, w')"
    and "RedisSet k s t \<in> set (events_since w w')"
  shows "t = 600 \<and> k = read_key req
    \<and> (\<exists>v d'. svc (read_call req) (db w) = (Inr v, d') \<and> s = stringify JSON v)
    \<and> (\<forall>v. r = Inr v \<longrightarrow> s = stringify JSON v \<and> redis w' k = Some (s, now w + 600))"
proof (cases rule: cache_aside_cases [of cacheOption JSON svc "read_key req" "read_call req" w])
  case bypass
  with assms(1) have "load_and_store JSON svc (read_key req) (read_call req) w = (r, w')"
    by (simp add: handle_read_cache_aside)
  from load_and_store_writes [OF this, of k s t "length (trace w)"] assms(2)
  show ?thesis by (auto simp: events_since_def)
next
  case get_fails
  with assms show ?thesis
    by (simp add: handle_read_cache_aside events_since_def) auto
next
  case (hit s')
  with assms show ?thesis
    by (simp add: handle_read_cache_aside events_since_def) auto
next
  case miss
  with assms(1) have "load_and_store JSON svc (read_key req) (read_call req)
      (sent (RedisGet (read_key req)) w) = (r, w')"
    by (simp add: handle_read_cache_aside)
  from load_and_store_writes [OF this, of k s t "length (trace w)"] assms(2)
  show ?thesis by (auto simp: events_since_def)
qed

theorem cache_writes_carry_ttl_600_witness:
  "RedisSet ''vehicles:1'' (plates_stringify [''ABC1234'']) 600
     \<in> set (events_since (sample_world\<lparr>now := 50\<rparr>)
         (snd (handle_read sample_JSON sample_service (Some ''max-age=0'')
           (GET_vehicles_id ''ADMIN'' 1) (sample_world\<lparr>now := 50\<rparr>))))
   \<and> fst (handle_read sample_JSON sample_service (Some ''max-age=0'')
        (GET_vehicles_id ''ADMIN'' 1) (sample_world\<lparr>now := 50\<rparr>))
       = Inr [''ABC1234'']
   \<and> redis (snd (handle_read sample_JSON sample_service (Some ''max-age=0'')
        (GET_vehicles_id ''ADMIN'' 1) (sample_world\<lparr>now := 50\<rparr>))) ''vehicles:1''
       = Some (plates_stringify [''ABC1234''], 650)"
proof -
  let ?w = "sample_world\<lparr>now := 50\<rparr>"
  let ?run = "handle_read sample_JSON sample_service (Some ''max-age=0'')
                (GET_vehicles_id ''ADMIN'' 1) ?w"
  have run: "?run =
      (Inr [''ABC1234''],
       (sent (RedisSet ''vehicles:1'' (plates_stringify [''ABC1234'']) 600)
          (called (VehicleService_getById ''ADMIN'' 1) (db ?w) (sent (RedisGet ''vehicles:1'') ?w)))
         \<lparr>redis := (redis ?w)(''vehicles:1'' \<mapsto> (plates_stringify [''ABC1234''], 650))\<rparr>)"
    by (simp add: VehicleController_getById_def Let_def render truthy_def redis_get_def
          redis_set_def redis_fails_def redis_lookup_def invoke_def sample_world_def
          sample_JSON_def)
  have ev: "RedisSet ''vehicles:1'' (plates_stringify [''ABC1234'']) 600
              \<in> set (events_since ?w (snd ?run))"
    unfolding run by (simp add: events_since_def sample_world_def)
  from cache_writes_carry_ttl_600 [OF surjective_pairing ev] ev
  show ?thesis
    unfolding run by (simp add: render sample_JSON_def)
qed

section \<open>The role annotations and SECURITY\<close>

text \<open>
  C10 (as the code has it). A caller with role SECURITY is allowed to create vehicles and
  to perform every read action on both resource types (vehicle list, vehicle by id, section
  list, section by id, reserved slots of a section); on sections, SECURITY is denied create
  as well as update and delete.
\<close>

theorem security_role_policy:
  "RolesGuard ''SECURITY'' Vehicle_create = Allow
   \<and> RolesGuard ''SECURITY'' Vehicle_getAll = Allow
   \<and> RolesGuard ''SECURITY'' Vehicle_getById = Allow
   \<and> RolesGuard ''SECURITY'' Section_getAll = Allow
   \<and> RolesGuard ''SECURITY'' Section_getById = Allow
   \<and> RolesGuard ''SECURITY'' Section_getReservedSlots = Allow
   \<and> RolesGuard ''SECURITY'' Section_create = Deny
   \<and> RolesGuard ''SECURITY'' Section_update = Deny
   \<and> RolesGuard ''SECURITY'' Section_delete = Deny"
  by (simp add: RolesGuard_def)

text \<open>
  As the spec words it, the property fails: the create route of the section controller is annotated with
  ADMIN alone, so SECURITY is not allowed to create a section.
\<close>

theorem security_section_create_counterexample:
  "\<not> (RolesGuard ''SECURITY'' Vehicle_create = Allow
        \<and> RolesGuard ''SECURITY'' Section_create = Allow)"
  by (simp add: RolesGuard_def)

end
